theory Spec2Isabelle
  imports Complex_Main "HOL-Library.Multiset" "HOL-Library.Product_Lexorder" "HOL-Library.List_Lexorder" "HOL-Library.Char_ord"
    "HOL-Library.Log_Nat" "HOL-Library.Sublist"
begin

section \<open>Data model\<close>

text \<open>
  The scripts of the tracker work on plain JSON objects. A calendar date is the text
  \<^verbatim>\<open>YYYY-MM-DD\<close>; the scripts compare dates with \<^verbatim>\<open>localeCompare\<close> and shift them
  through \<^verbatim>\<open>Date\<close>, whose value is a point on the time line. The model keeps the day
  number of a date (days since 1970-01-01): comparing two dates is comparing their day
  numbers, and \<^verbatim>\<open>setUTCDate(getUTCDate() - k)\<close> is subtracting \<open>k\<close>.

  An archive timestamp \<^verbatim>\<open>YYYYMMDDhhmmss\<close> is its calendar day and its time of day;
  \<^verbatim>\<open>isoDateFromWaybackTimestamp\<close> keeps the first eight digits, the day.

  Amounts and rates are JavaScript numbers: binary floating point numbers of 64 bits. The
  model keeps the exact value of such a number, a rational, and rounds where the scripts
  do: when a text is read as a number, when two numbers are multiplied, and in
  \<^verbatim>\<open>toFixed\<close>. Infinities and NaN are not modelled.
\<close>

type_synonym isodate = int

type_synonym timestamp = "isodate \<times> nat"

record price =
  amount :: rat
  currency :: string

record fx_meta =
  pair :: string
  rate :: rat
  source :: string
  fx_date :: isodate

record price_cad =
  cad_amount :: rat
  fx :: "fx_meta option"

text \<open>
  A supplementary point is an entry of \<^verbatim>\<open>supplementary-points.json\<close> that carries
  a calendar date: \<^verbatim>\<open>{ date, kind, price: { amount, currency }, sourceId, url }\<close>, with
  an optional \<^verbatim>\<open>wayback\<close>. A text field that is absent is the empty text and an absent
  amount is \<open>0\<close>: the values the scripts test with \<^verbatim>\<open>!\<close>, \<^verbatim>\<open>||\<close> and \<^verbatim>\<open>?? 0\<close>.
\<close>

record supp_point =
  date :: isodate
  kind :: string
  price :: price
  sourceId :: string
  url :: string
  wayback :: "timestamp option"

text \<open>A point of the series: the same fields and the price in the display currency.\<close>

record point = supp_point +
  priceCad :: price_cad

definition isoDateFromWaybackTimestamp :: "timestamp \<Rightarrow> isodate" where
  "isoDateFromWaybackTimestamp ts = fst ts"


section \<open>De-duplication and the final sort of \<^verbatim>\<open>buildSeries\<close>\<close>

text \<open>
  \<^verbatim>\<open>const k = `${pt.date}|${pt.kind}|${pt.price.amount}|${pt.price.currency}|${pt.sourceId}`\<close>

  The date is digits and hyphens, the kind one of the two tags and a number prints
  without a bar, so the first three bars of the key split it in one way only. The
  currency and the source identifier are free text: they stay joined by their bar, as in
  the source.
\<close>

definition dedupeKey :: "point \<Rightarrow> isodate \<times> string \<times> rat \<times> string" where
  "dedupeKey pt =
     (date pt, kind pt, amount (price pt), currency (price pt) @ ''|'' @ sourceId pt)"

text \<open>The five fields the key is made of.\<close>

definition keyTuple :: "point \<Rightarrow> isodate \<times> string \<times> rat \<times> string \<times> string" where
  "keyTuple pt = (date pt, kind pt, amount (price pt), currency (price pt), sourceId pt)"

text \<open>
  The loop over \<^verbatim>\<open>points\<close> with the set \<^verbatim>\<open>seen\<close> and the array \<^verbatim>\<open>deduped\<close>
  (kept in pushing order).
\<close>

fun dedupeLoop :: "(isodate \<times> string \<times> rat \<times> string) set \<Rightarrow> point list \<Rightarrow> point list" where
  "dedupeLoop seen [] = []"
| "dedupeLoop seen (pt # pts) =
     (if dedupeKey pt \<in> seen then dedupeLoop seen pts
      else pt # dedupeLoop (insert (dedupeKey pt) seen) pts)"

definition dedupe :: "point list \<Rightarrow> point list" where
  "dedupe points = dedupeLoop {} points"

text \<open>
  \<^verbatim>\<open>deduped.sort((a, b) => a.date.localeCompare(b.date))\<close>: \<^verbatim>\<open>Array.prototype.sort\<close>
  is stable, so the result is the stable sort on the date.
\<close>

definition sortByDate :: "point list \<Rightarrow> point list" where
  "sortByDate pts = sort_key date pts"

definition emitSeries :: "point list \<Rightarrow> point list" where
  "emitSeries points = sortByDate (dedupe points)"

text \<open>A text without the bar that separates the fields of the key.\<close>

definition barFree :: "string \<Rightarrow> bool" where
  "barFree s = (CHR ''|'' \<notin> set s)"


text \<open>
  \<^verbatim>\<open>buildSeries\<close> pushes the points of the live page first, then those of the
  archive snapshots, then the supplementary ones, and de-duplicates and sorts the array.
\<close>

definition mergeSeries :: "point list \<Rightarrow> point list \<Rightarrow> point list \<Rightarrow> point list" where
  "mergeSeries primary historical supplementary =
     emitSeries (primary @ historical @ supplementary)"

section \<open>JavaScript numbers\<close>

text \<open>
  The exponent of a positive rational \<open>x\<close>: the \<open>e\<close> with \<open>2^e \<le> x < 2^(e+1)\<close>. The
  difference of the bit lengths of numerator and denominator is \<open>e\<close> or \<open>e + 1\<close>.
\<close>

definition expo :: "rat \<Rightarrow> int" where
  "expo x =
     (case quotient_of x of
        (p, q) \<Rightarrow>
          (let k = bitlen p - bitlen q
           in if 2 powi k \<le> x then k else k - 1))"

text \<open>Rounding to the nearest integer, to the even one of two equally near.\<close>

definition roundHalfEven :: "rat \<Rightarrow> int" where
  "roundHalfEven q =
     (let f = \<lfloor>q\<rfloor>; r = q - of_int f
      in if r < 1 / 2 then f else if 1 / 2 < r then f + 1 else if even f then f else f + 1)"

text \<open>
  The number nearest to a rational: 53 significant bits, ties to even, the exponent not
  below -1022 (subnormal numbers have the spacing of the smallest normal ones).
\<close>

definition toDoublePos :: "rat \<Rightarrow> rat" where
  "toDoublePos x =
     (let e = max (expo x) (- 1022); u = 2 powi (e - 52)
      in of_int (roundHalfEven (x / u)) * u)"

definition toDouble :: "rat \<Rightarrow> rat" where
  "toDouble x = (if x = 0 then 0 else if 0 < x then toDoublePos x else - toDoublePos (- x))"

text \<open>
  \<^verbatim>\<open>Number(x.toFixed(2))\<close> of a number \<open>x\<close>: \<^verbatim>\<open>toFixed\<close> sets the sign aside, takes the
  integer \<open>n\<close> with \<open>n / 100\<close> nearest to the exact value of \<open>x\<close> (the larger of two
  equally near) and prints it with two decimals, and \<^verbatim>\<open>Number\<close> reads that text. From
  \<open>10^21\<close> on \<^verbatim>\<open>toFixed\<close> prints the number itself.
\<close>

definition toFixed2 :: "rat \<Rightarrow> rat" where
  "toFixed2 x =
     (if 10 ^ 21 \<le> \<bar>x\<bar> then x
      else if x < 0 then - toDouble (of_int \<lfloor>(- x) * 100 + 1 / 2\<rfloor> / 100)
      else toDouble (of_int \<lfloor>x * 100 + 1 / 2\<rfloor> / 100))"

section \<open>Spreading supplementary points over days (\<^verbatim>\<open>spreadSupplementaryDates\<close>)\<close>

text \<open>
  \<^verbatim>\<open>const key = `${pt.sourceId}|${pt.date}`\<close>: a date holds no bar, so the key is the
  pair of its two parts.
\<close>

definition spreadKey :: "supp_point \<Rightarrow> string \<times> isodate" where
  "spreadKey pt = (sourceId pt, date pt)"

text \<open>
  The \<^verbatim>\<open>Map byKey\<close> keeps its keys in the order of their first insertion, and each
  group its points in the order they were pushed.
\<close>

fun pushByKey :: "supp_point \<Rightarrow> ((string \<times> isodate) \<times> supp_point list) list
    \<Rightarrow> ((string \<times> isodate) \<times> supp_point list) list" where
  "pushByKey pt [] = [(spreadKey pt, [pt])]"
| "pushByKey pt ((k, g) # m) =
     (if k = spreadKey pt then (k, g @ [pt]) # m else (k, g) # pushByKey pt m)"

definition byKey :: "supp_point list \<Rightarrow> ((string \<times> isodate) \<times> supp_point list) list" where
  "byKey points = foldl (\<lambda>m pt. pushByKey pt m) [] points"

text \<open>
  The inner loop \<^verbatim>\<open>for (let i = 0; i < group.length; i++)\<close> over the sorted group:
  the point at index \<open>i\<close> of \<open>n\<close> gets the day \<open>base - (n - 1 - i)\<close>.
\<close>

fun redate :: "isodate \<Rightarrow> nat \<Rightarrow> nat \<Rightarrow> supp_point list \<Rightarrow> supp_point list" where
  "redate base n i [] = []"
| "redate base n i (pt # pts) =
     pt\<lparr>date := base - int (n - 1 - i)\<rparr> # redate base n (Suc i) pts"

text \<open>
  One group: left as it is when it holds one point; otherwise sorted by ascending amount
  (\<^verbatim>\<open>group.sort\<close> is stable) and re-dated backwards from the date of its first point,
  read before the sort.
\<close>

definition spreadGroup :: "supp_point list \<Rightarrow> supp_point list" where
  "spreadGroup grp =
     (case grp of
        [] \<Rightarrow> []
      | first # _ \<Rightarrow>
          if length grp \<le> 1 then grp
          else redate (date first) (length grp) 0
                 (sort_key (\<lambda>pt. amount (price pt)) grp))"

text \<open>
  \<^verbatim>\<open>out.sort((a, b) => a.date.localeCompare(b.date) || (a.price?.amount ?? 0) - (b.price?.amount ?? 0))\<close>:
  the stable sort on the date, then the amount.
\<close>

definition sortByDateAmount :: "('a supp_point_scheme) list \<Rightarrow> ('a supp_point_scheme) list" where
  "sortByDateAmount pts = sort_key (\<lambda>pt. (date pt, amount (price pt))) pts"

definition spreadSupplementaryDates :: "supp_point list \<Rightarrow> supp_point list" where
  "spreadSupplementaryDates points =
     sortByDateAmount (concat (map (\<lambda>(k, grp). spreadGroup grp) (byKey points)))"

text \<open>A supplementary point with the given date, amount (in USD) and source, for the examples.\<close>

definition exampleSupp :: "isodate \<Rightarrow> string \<Rightarrow> rat \<Rightarrow> string \<Rightarrow> string \<Rightarrow> supp_point" where
  "exampleSupp d k a c s =
     \<lparr>date = d, kind = k, price = \<lparr>amount = a, currency = c\<rparr>,
      sourceId = s, url = ''https://example.org/listing'', wayback = None\<rparr>"

section \<open>The HTML price extractors\<close>

text \<open>
  A page is a list of 8-bit characters; code points outside ASCII are not modelled.
  Each regular expression of the scripts is written out as the scanner it denotes. In
  every one of them the greedy choice is the only one that can succeed (what follows a
  run of digits or of white space never matches a digit or a white space character), so
  the scanners take the greedy choice and do not backtrack.
\<close>

definition isDigit :: "char \<Rightarrow> bool" where
  "isDigit c = (c \<in> set ''0123456789'')"

text \<open>\<^verbatim>\<open>\s\<close> on ASCII: tab, line feed, vertical tab, form feed, carriage return, space.\<close>

definition isSpace :: "char \<Rightarrow> bool" where
  "isSpace c = (c \<in> {CHR 0x09, CHR 0x0A, CHR 0x0B, CHR 0x0C, CHR 0x0D, CHR '' ''})"

definition isLetter :: "char \<Rightarrow> bool" where
  "isLetter c = (c \<in> set ''ABCDEFGHIJKLMNOPQRSTUVWXYZabcdefghijklmnopqrstuvwxyz'')"

text \<open>\<^verbatim>\<open>toUpperCase\<close> on ASCII.\<close>

definition toUpperChar :: "char \<Rightarrow> char" where
  "toUpperChar c =
     (if c \<in> set ''abcdefghijklmnopqrstuvwxyz'' then char_of (of_char c - (32::nat)) else c)"

definition toUpperCase :: "string \<Rightarrow> string" where
  "toUpperCase s = map toUpperChar s"

text \<open>A literal at the head of the text; the rest of the text when it is there.\<close>

fun literal :: "string \<Rightarrow> string \<Rightarrow> string option" where
  "literal [] s = Some s"
| "literal (p # ps) [] = None"
| "literal (p # ps) (c # cs) = (if p = c then literal ps cs else None)"

text \<open>The same under the flag \<^verbatim>\<open>i\<close>.\<close>

fun literalCI :: "string \<Rightarrow> string \<Rightarrow> string option" where
  "literalCI [] s = Some s"
| "literalCI (p # ps) [] = None"
| "literalCI (p # ps) (c # cs) =
     (if toUpperChar p = toUpperChar c then literalCI ps cs else None)"

text \<open>\<^verbatim>\<open>\s*\<close>, and an optional single character such as \<^verbatim>\<open>"?\<close>.\<close>

definition skipSpaces :: "string \<Rightarrow> string" where
  "skipSpaces s = dropWhile isSpace s"

fun optChar :: "char \<Rightarrow> string \<Rightarrow> string" where
  "optChar q [] = []"
| "optChar q (c # cs) = (if c = q then cs else c # cs)"

text \<open>\<^verbatim>\<open>\d+\<close> and \<^verbatim>\<open>\d{2,3}\<close>: the digits taken and the rest.\<close>

definition digits1 :: "string \<Rightarrow> (string \<times> string) option" where
  "digits1 s =
     (let ds = takeWhile isDigit s
      in if ds = [] then None else Some (ds, dropWhile isDigit s))"

definition digits23 :: "string \<Rightarrow> (string \<times> string) option" where
  "digits23 s =
     (let ds = takeWhile isDigit s
      in if length ds < 2 then None else Some (take 3 ds, drop (min 3 (length ds)) s))"

text \<open>\<^verbatim>\<open>(?:\.\d+)?\<close> and \<^verbatim>\<open>(?:\.[0-9]{2})?\<close>: the fraction taken (or nothing) and the rest.\<close>

fun optFraction :: "string \<Rightarrow> string \<times> string" where
  "optFraction [] = ([], [])"
| "optFraction (c # cs) =
     (if c = CHR ''.'' \<and> takeWhile isDigit cs \<noteq> []
      then (c # takeWhile isDigit cs, dropWhile isDigit cs) else ([], c # cs))"

fun optFraction2 :: "string \<Rightarrow> string \<times> string" where
  "optFraction2 (c # d1 # d2 # cs) =
     (if c = CHR ''.'' \<and> isDigit d1 \<and> isDigit d2 then ([c, d1, d2], cs)
      else ([], c # d1 # d2 # cs))"
| "optFraction2 s = ([], s)"

text \<open>
  \<^verbatim>\<open>html.match(re)\<close> takes the leftmost match and \<^verbatim>\<open>html.matchAll(re)\<close> every
  match from left to right, each search starting where the match before ended (one
  character further after an empty match). A scanner returns the captured group and the
  text after the match.
\<close>

type_synonym scanner = "string \<Rightarrow> (string \<times> string) option"

fun firstMatch :: "scanner \<Rightarrow> string \<Rightarrow> string option" where
  "firstMatch m [] = map_option fst (m [])"
| "firstMatch m (c # cs) =
     (case m (c # cs) of Some (cap, rest) \<Rightarrow> Some cap | None \<Rightarrow> firstMatch m cs)"

fun matchAll :: "scanner \<Rightarrow> string \<Rightarrow> string list" where
  "matchAll m [] = (case m [] of Some (cap, rest) \<Rightarrow> [cap] | None \<Rightarrow> [])"
| "matchAll m (c # cs) =
     (case m (c # cs) of
        Some (cap, rest) \<Rightarrow>
          cap # (if length rest < length (c # cs) then matchAll m rest else matchAll m cs)
      | None \<Rightarrow> matchAll m cs)"

text \<open>
  \<^verbatim>\<open>Number(m[1])\<close> of a captured \<^verbatim>\<open>digits\<close> or \<^verbatim>\<open>digits.digits\<close>: the number
  nearest to the decimal the text denotes.
\<close>

definition digitValue :: "char \<Rightarrow> nat" where
  "digitValue c = of_char c - 48"

definition natOfDigits :: "string \<Rightarrow> nat" where
  "natOfDigits ds = foldl (\<lambda>a c. 10 * a + digitValue c) 0 ds"

definition Number :: "string \<Rightarrow> rat" where
  "Number s =
     (let ip = takeWhile isDigit s; fp = drop 1 (dropWhile isDigit s)
      in toDouble (of_nat (natOfDigits ip) + of_nat (natOfDigits fp) / 10 ^ length fp))"

subsection \<open>\<^verbatim>\<open>parseGrailedPrices\<close>\<close>

text \<open>\<^verbatim>\<open>/"price"\s*:\s*"?(\d{2,3}(?:\.\d+)?)"?/g\<close>\<close>

definition grailedPriceRe :: scanner where
  \<open>grailedPriceRe s =
     (case literal ''"price"'' s of
        None \<Rightarrow> None
      | Some s1 \<Rightarrow>
          (case literal '':'' (skipSpaces s1) of
             None \<Rightarrow> None
           | Some s2 \<Rightarrow>
               (case digits23 (optChar (CHR 0x22) (skipSpaces s2)) of
                  None \<Rightarrow> None
                | Some (ds, s3) \<Rightarrow>
                    (case optFraction s3 of
                       (fr, s4) \<Rightarrow> Some (ds @ fr, optChar (CHR 0x22) s4)))))\<close>

text \<open>\<^verbatim>\<open>/\$\s*(\d{2,3}(?:\.\d+)?)\s*(?:USD|usd)/gi\<close>\<close>

definition grailedUsdRe :: scanner where
  "grailedUsdRe s =
     (case literal ''$'' s of
        None \<Rightarrow> None
      | Some s1 \<Rightarrow>
          (case digits23 (skipSpaces s1) of
             None \<Rightarrow> None
           | Some (ds, s2) \<Rightarrow>
               (case optFraction s2 of
                  (fr, s3) \<Rightarrow>
                    (case literalCI ''USD'' (skipSpaces s3) of
                       None \<Rightarrow> None
                     | Some s4 \<Rightarrow> Some (ds @ fr, s4)))))"

text \<open>\<^verbatim>\<open>/\$(\d{2,3})(?:\s|"|,|<\/|\.)/g\<close>\<close>

fun plainDollarEnd :: "string \<Rightarrow> string option" where
  "plainDollarEnd [] = None"
| "plainDollarEnd (c # cs) =
     (if isSpace c \<or> c = CHR 0x22 \<or> c = CHR '','' then Some cs
      else if c = CHR ''<'' then literal ''/'' cs
      else if c = CHR ''.'' then Some cs
      else None)"

definition grailedPlainDollarRe :: scanner where
  "grailedPlainDollarRe s =
     (case literal ''$'' s of
        None \<Rightarrow> None
      | Some s1 \<Rightarrow>
          (case digits23 s1 of
             None \<Rightarrow> None
           | Some (ds, s2) \<Rightarrow>
               (case plainDollarEnd s2 of None \<Rightarrow> None | Some s3 \<Rightarrow> Some (ds, s3))))"

text \<open>
  One of the three loops of \<^verbatim>\<open>parseGrailedPrices\<close>: an amount is pushed when it lies
  in the range and is not in \<^verbatim>\<open>seen\<close>. The state is the set \<^verbatim>\<open>seen\<close> and the array
  \<^verbatim>\<open>points\<close>.
\<close>

definition GRAILED_SEARCH :: string where
  "GRAILED_SEARCH = ''https://www.grailed.com/search?q=veilance+bucket+hat''"

definition salePoint :: "isodate \<Rightarrow> rat \<Rightarrow> string \<Rightarrow> string \<Rightarrow> supp_point" where
  "salePoint d a s u =
     \<lparr>date = d, kind = ''sale'', price = \<lparr>amount = a, currency = ''USD''\<rparr>,
      sourceId = s, url = u, wayback = None\<rparr>"

fun pushInRange :: "rat \<Rightarrow> rat \<Rightarrow> (rat \<Rightarrow> supp_point) \<Rightarrow> string list
    \<Rightarrow> rat set \<times> supp_point list \<Rightarrow> rat set \<times> supp_point list" where
  "pushInRange lo hi mk [] (seen, points) = (seen, points)"
| "pushInRange lo hi mk (m # ms) (seen, points) =
     (let amt = Number m
      in if lo \<le> amt \<and> amt \<le> hi \<and> amt \<notin> seen
         then pushInRange lo hi mk ms (insert amt seen, points @ [mk amt])
         else pushInRange lo hi mk ms (seen, points))"

definition parseGrailedPrices :: "isodate \<Rightarrow> string \<Rightarrow> supp_point list" where
  "parseGrailedPrices today html =
     (let mk = (\<lambda>amt. salePoint today amt ''grailed'' GRAILED_SEARCH);
          priceMatches = matchAll grailedPriceRe html;
          usdMatches = matchAll grailedUsdRe html;
          plainDollar = matchAll grailedPlainDollarRe html
      in snd (pushInRange 80 350 mk plainDollar
               (pushInRange 80 350 mk usdMatches
                 (pushInRange 80 350 mk priceMatches ({}, [])))))"

subsection \<open>\<^verbatim>\<open>parseEbayPrices\<close>\<close>

text \<open>
  \<^verbatim>\<open>/\$\s*(\d+(?:\.\d+)?)\s*(?:CAD|USD|CAD\s*\/\s*USD)?/gi\<close>. Of the alternatives the
  first, \<^verbatim>\<open>CAD\<close>, matches wherever the third would, and nothing follows the group,
  so the third is never taken.
\<close>

definition optCurrencyCode :: "string \<Rightarrow> string" where
  "optCurrencyCode s =
     (case literalCI ''CAD'' s of
        Some r \<Rightarrow> r
      | None \<Rightarrow> (case literalCI ''USD'' s of Some r \<Rightarrow> r | None \<Rightarrow> s))"

definition ebayPriceRe :: scanner where
  "ebayPriceRe s =
     (case literal ''$'' s of
        None \<Rightarrow> None
      | Some s1 \<Rightarrow>
          (case digits1 (skipSpaces s1) of
             None \<Rightarrow> None
           | Some (ds, s2) \<Rightarrow>
               (case optFraction s2 of
                  (fr, s3) \<Rightarrow> Some (ds @ fr, optCurrencyCode (skipSpaces s3)))))"

text \<open>\<^verbatim>\<open>/s-item__price[^>]*>[\s$]*(\d+(?:\.\d+)?)/g\<close>\<close>

definition ebaySpanRe :: scanner where
  "ebaySpanRe s =
     (case literal ''s-item__price'' s of
        None \<Rightarrow> None
      | Some s1 \<Rightarrow>
          (case literal ''>'' (dropWhile (\<lambda>c. c \<noteq> CHR ''>'') s1) of
             None \<Rightarrow> None
           | Some s2 \<Rightarrow>
               (case digits1 (dropWhile (\<lambda>c. isSpace c \<or> c = CHR ''$'') s2) of
                  None \<Rightarrow> None
                | Some (ds, s3) \<Rightarrow>
                    (case optFraction s3 of (fr, s4) \<Rightarrow> Some (ds @ fr, s4)))))"

definition EBAY_SOLD :: string where
  "EBAY_SOLD = ''https://www.ebay.com/sch/i.html?_nkw=veilance+bucket+hat+carmine&_sacat=0&LH_Sold=1&LH_Complete=1''"

definition EBAY_LISTINGS :: string where
  "EBAY_LISTINGS = ''https://www.ebay.com/sch/i.html?_nkw=veilance+bucket+hat+carmine&_sacat=0''"

definition parseEbayPrices :: "isodate \<Rightarrow> string \<Rightarrow> supp_point list" where
  "parseEbayPrices today html =
     (let priceMatches = matchAll ebayPriceRe html;
          spanPrice = matchAll ebaySpanRe html
      in snd (pushInRange 50 500 (\<lambda>amt. salePoint today amt ''ebay'' EBAY_LISTINGS) spanPrice
               (pushInRange 50 500 (\<lambda>amt. salePoint today amt ''ebay'' EBAY_SOLD) priceMatches
                 ({}, []))))"

subsection \<open>\<^verbatim>\<open>parsePriceFromHtml\<close> of the product page\<close>

text \<open>\<^verbatim>\<open>/"priceCurrency"\s*:\s*"([A-Z]{3})"/i\<close>\<close>

fun threeLetters :: "string \<Rightarrow> (string \<times> string) option" where
  "threeLetters (a # b # c # cs) =
     (if isLetter a \<and> isLetter b \<and> isLetter c then Some ([a, b, c], cs) else None)"
| "threeLetters s = None"

definition jsonLdCurrencyRe :: scanner where
  \<open>jsonLdCurrencyRe s =
     (case literalCI ''"priceCurrency"'' s of
        None \<Rightarrow> None
      | Some s1 \<Rightarrow>
          (case literal '':'' (skipSpaces s1) of
             None \<Rightarrow> None
           | Some s2 \<Rightarrow>
               (case literal ''"'' (skipSpaces s2) of
                  None \<Rightarrow> None
                | Some s3 \<Rightarrow>
                    (case threeLetters s3 of
                       None \<Rightarrow> None
                     | Some (code, s4) \<Rightarrow>
                         (case literal ''"'' s4 of
                            None \<Rightarrow> None
                          | Some s5 \<Rightarrow> Some (code, s5))))))\<close>

text \<open>\<^verbatim>\<open>/"price"\s*:\s*"?([0-9]+(?:\.[0-9]+)?)"?/i\<close>\<close>

definition jsonLdPriceRe :: scanner where
  \<open>jsonLdPriceRe s =
     (case literalCI ''"price"'' s of
        None \<Rightarrow> None
      | Some s1 \<Rightarrow>
          (case literal '':'' (skipSpaces s1) of
             None \<Rightarrow> None
           | Some s2 \<Rightarrow>
               (case digits1 (optChar (CHR 0x22) (skipSpaces s2)) of
                  None \<Rightarrow> None
                | Some (ds, s3) \<Rightarrow>
                    (case optFraction s3 of
                       (fr, s4) \<Rightarrow> Some (ds @ fr, optChar (CHR 0x22) s4)))))\<close>

text \<open>\<^verbatim>\<open>/\$\s*([0-9]+(?:\.[0-9]{2})?)/\<close>\<close>

definition textPriceRe :: scanner where
  "textPriceRe s =
     (case literal ''$'' s of
        None \<Rightarrow> None
      | Some s1 \<Rightarrow>
          (case digits1 (skipSpaces s1) of
             None \<Rightarrow> None
           | Some (ds, s2) \<Rightarrow> (case optFraction2 s2 of (fr, s3) \<Rightarrow> Some (ds @ fr, s3))))"

record parsed =
  current :: "rat option"
  regular :: "rat option"
  parsed_currency :: string

definition parsePriceFromHtml :: "string \<Rightarrow> parsed" where
  "parsePriceFromHtml html =
     (let jsonLdCurrency = firstMatch jsonLdCurrencyRe html;
          jsonLdPrice = firstMatch jsonLdPriceRe html;
          textPrice = firstMatch textPriceRe html
      in \<lparr>current =
            (case jsonLdPrice of
               Some p \<Rightarrow> Some (Number p)
             | None \<Rightarrow> (case textPrice of Some t \<Rightarrow> Some (Number t) | None \<Rightarrow> None)),
          regular = None,
          parsed_currency =
            toUpperCase (case jsonLdCurrency of Some c \<Rightarrow> c | None \<Rightarrow> ''CAD'')\<rparr>)"

section \<open>The series builder (\<^verbatim>\<open>buildSeries\<close> of \<^verbatim>\<open>update-data.mjs\<close>)\<close>

text \<open>
  An entry of the parsed supplementary file either carries a calendar date or has no
  \<^verbatim>\<open>date\<close> at all (the scripts write the field, a hand-written entry may lack it). A
  date that is there is a calendar date: other texts are not modelled.
\<close>

record undated_point =
  u_kind :: string
  u_price :: price
  u_sourceId :: string
  u_url :: string
  u_wayback :: "timestamp option"

datatype supp_entry = Dated supp_point | Undated undated_point

text \<open>
  What a run reads from outside: the date of the day, the live product page, the rate
  service (the rate of the parsed answer, a number), the archive index, the archived
  pages and the supplementary file. A fetch that throws (network failure, a status that
  is not \<^verbatim>\<open>ok\<close>, text that does not parse) is \<open>None\<close>.

  The last field belongs to the engine: the calls \<^verbatim>\<open>Array.prototype.sort\<close> makes to its
  comparator are implementation-defined, and the field tells whether, sorting the spread
  entries of the given file, it calls the comparator with a date-less entry as the first
  argument.
\<close>

record env =
  todayISO :: isodate
  fetchLive :: "string option"
  frankfurter :: "isodate \<Rightarrow> string \<Rightarrow> string \<Rightarrow> rat option"
  cdxTimestamps :: "timestamp list option"
  fetchSnapshot :: "timestamp \<Rightarrow> string option"
  loadSupplementaryPoints :: "supp_entry list option"
  sortComparesUndatedFirst :: "supp_entry list \<Rightarrow> bool"

text \<open>The ways \<^verbatim>\<open>buildSeries\<close> throws; \<^verbatim>\<open>main\<close> then exits with status 1 and writes nothing.\<close>

datatype run_error =
  LiveFetchFailed | LiveFxFailed | SupplementaryUnreadable | SupplementaryDateMissing

text \<open>
  \<^verbatim>\<open>fxRate\<close>: the rate of the answer, \<^verbatim>\<open>if (!rate) throw new Error(...)\<close>.
\<close>

definition fxRate :: "env \<Rightarrow> isodate \<Rightarrow> string \<Rightarrow> string \<Rightarrow> rat option" where
  "fxRate e dateISO from to =
     (case frankfurter e dateISO from to of
        None \<Rightarrow> None
      | Some r \<Rightarrow> if r = 0 then None else Some r)"

text \<open>
  The rate of a point: \<^verbatim>\<open>fxFrom === 'CAD' ? 1 : await fxRate(date, fxFrom, 'CAD')\<close>,
  written with \<^verbatim>\<open>let rate = 1; if (currency !== 'CAD')\<close> for the supplementary points.
\<close>

definition rateToCad :: "env \<Rightarrow> isodate \<Rightarrow> string \<Rightarrow> rat option" where
  "rateToCad e d cur = (if cur = ''CAD'' then Some 1 else fxRate e d cur ''CAD'')"

text \<open>
  The object literal that \<^verbatim>\<open>buildSeries\<close> pushes, five times with the same shape:
  the amount in CAD is \<^verbatim>\<open>Number((amount * rate).toFixed(2))\<close>, the product being the
  number nearest to the exact one, and the \<^verbatim>\<open>fx\<close> block is left out when the currency
  is CAD.
\<close>

definition convertedPoint ::
  "isodate \<Rightarrow> string \<Rightarrow> rat \<Rightarrow> string \<Rightarrow> rat \<Rightarrow> string \<Rightarrow> string \<Rightarrow> timestamp option \<Rightarrow> point" where
  "convertedPoint d k a cur r sid u wb =
     \<lparr>date = d, kind = k, price = \<lparr>amount = a, currency = cur\<rparr>,
      sourceId = sid, url = u, wayback = wb,
      priceCad = \<lparr>cad_amount = toFixed2 (toDouble (a * r)),
        fx = (if cur = ''CAD'' then None
              else Some \<lparr>pair = cur @ ''/CAD'', rate = r, source = ''frankfurter.app'',
                         fx_date = d\<rparr>)\<rparr>\<rparr>"

definition SOURCE_id :: string where
  "SOURCE_id = ''arcteryx-ca''"

definition SOURCE_url :: string where
  "SOURCE_url = ''https://arcteryx.com/ca/en/shop/bucket-hat-9477''"

text \<open>\<^verbatim>\<open>(parsed.currency || SOURCE.currency || 'CAD').toUpperCase()\<close>, with \<^verbatim>\<open>SOURCE.currency\<close> being CAD.\<close>

definition fxFromOf :: "parsed \<Rightarrow> string" where
  "fxFromOf p = toUpperCase (if parsed_currency p \<noteq> [] then parsed_currency p else ''CAD'')"

text \<open>The two \<^verbatim>\<open>if (... != null) points.push(...)\<close> of a parsed page.\<close>

definition pagePoints :: "parsed \<Rightarrow> isodate \<Rightarrow> string \<Rightarrow> rat \<Rightarrow> timestamp option \<Rightarrow> point list" where
  "pagePoints p d cur r wb =
     (case current p of
        Some c \<Rightarrow> [convertedPoint d ''sale'' c cur r SOURCE_id SOURCE_url wb]
      | None \<Rightarrow> []) @
     (case regular p of
        Some m \<Rightarrow> [convertedPoint d ''msrp'' m cur r SOURCE_id SOURCE_url wb]
      | None \<Rightarrow> [])"

text \<open>\<^verbatim>\<open>getWaybackAllSnapshots\<close>: the timestamps of the index rows, sorted.\<close>

definition getWaybackAllSnapshots :: "env \<Rightarrow> timestamp list option" where
  "getWaybackAllSnapshots e = map_option sort (cdxTimestamps e)"

text \<open>
  The body of the loop over the snapshots: a page that cannot be fetched, a page without
  a price and a rate that cannot be resolved each skip the snapshot (\<^verbatim>\<open>continue\<close>).
\<close>

definition snapshotPoints :: "env \<Rightarrow> timestamp \<Rightarrow> point list" where
  "snapshotPoints e ts =
     (let dateISO = isoDateFromWaybackTimestamp ts
      in case fetchSnapshot e ts of
           None \<Rightarrow> []
         | Some htmlSnap \<Rightarrow>
             (let p = parsePriceFromHtml htmlSnap
              in if current p = None \<and> regular p = None then []
                 else (let snapFrom = fxFromOf p
                       in case rateToCad e dateISO snapFrom of
                            None \<Rightarrow> []
                          | Some r \<Rightarrow> pagePoints p dateISO snapFrom r (Some ts))))"

text \<open>
  The historical part: an index that cannot be read is logged and leaves no snapshots.
\<close>

definition historicalPoints :: "env \<Rightarrow> bool \<Rightarrow> point list" where
  "historicalPoints e includeWayback =
     (if includeWayback
      then (case getWaybackAllSnapshots e of
              None \<Rightarrow> []
            | Some snapshots \<Rightarrow> concat (map (snapshotPoints e) snapshots))
      else [])"

text \<open>
  The body of the loop over the spread supplementary points, for an entry that has a
  date: an entry with another field missing and an entry whose rate cannot be resolved
  are skipped. The currency is
  \<^verbatim>\<open>(pt.price.currency || 'USD').toUpperCase()\<close>.
\<close>

definition suppCurrency :: "supp_point \<Rightarrow> string" where
  "suppCurrency pt =
     toUpperCase (if currency (price pt) \<noteq> [] then currency (price pt) else ''USD'')"

definition supplementaryPoint :: "env \<Rightarrow> supp_point \<Rightarrow> point option" where
  "supplementaryPoint e pt =
     (if kind pt = [] \<or> amount (price pt) = 0 \<or> sourceId pt = [] \<or> url pt = [] then None
      else (let cur = suppCurrency pt
            in case rateToCad e (date pt) cur of
                 None \<Rightarrow> None
               | Some r \<Rightarrow>
                   Some (convertedPoint (date pt) (if kind pt = ''msrp'' then ''msrp'' else ''sale'')
                           (amount (price pt)) cur r (sourceId pt) (url pt) (wayback pt))))"

definition supplementaryPoints :: "env \<Rightarrow> supp_point list \<Rightarrow> point list" where
  "supplementaryPoints e supplementary =
     List.map_filter (supplementaryPoint e) (spreadSupplementaryDates supplementary)"

text \<open>
  \<^verbatim>\<open>spreadSupplementaryDates\<close> on the entries of the file. The entries with a date are
  spread as above. A date-less entry has the key \<^verbatim>\<open>sourceId|undefined\<close>:

  \<^item> two of them in one group reach \<^verbatim>\<open>new Date('undefinedT12:00:00Z').toISOString()\<close>,
    a \<^verbatim>\<open>RangeError\<close>;
  \<^item> two of them in two groups reach the final sort, which has to compare them with each
    other: \<^verbatim>\<open>a.date.localeCompare\<close> of an absent date is a \<^verbatim>\<open>TypeError\<close>;
  \<^item> one of them among entries with a date throws the same \<^verbatim>\<open>TypeError\<close> when the sort
    passes it as the first argument; when it does not, every comparison it takes part in
    is \<^verbatim>\<open>date.localeCompare(undefined)\<close>, a date against the text \<^verbatim>\<open>undefined\<close>, and
    the entry ends behind the others;
  \<^item> one of them alone is an array of one element, which the sort does not compare.

  \<open>None\<close> is the exception.
\<close>

definition datedOf :: "supp_entry list \<Rightarrow> supp_point list" where
  "datedOf entries =
     List.map_filter (\<lambda>entry. case entry of Dated pt \<Rightarrow> Some pt | Undated u \<Rightarrow> None) entries"

definition undatedOf :: "supp_entry list \<Rightarrow> undated_point list" where
  "undatedOf entries =
     List.map_filter (\<lambda>entry. case entry of Dated pt \<Rightarrow> None | Undated u \<Rightarrow> Some u) entries"

definition spreadEntries :: "(supp_entry list \<Rightarrow> bool) \<Rightarrow> supp_entry list \<Rightarrow> supp_entry list option" where
  "spreadEntries undatedFirst entries =
     (let dated = datedOf entries; undated = undatedOf entries
      in if 2 \<le> length undated then None
         else if undated \<noteq> [] \<and> dated \<noteq> [] \<and> undatedFirst entries then None
         else Some (map Dated (spreadSupplementaryDates dated) @ map Undated undated))"

text \<open>
  The first test of the loop over the spread entries, \<^verbatim>\<open>!pt?.date\<close>, skips an entry
  without a date; the rest of the body is \<open>supplementaryPoint\<close>.
\<close>

definition entryPoint :: "env \<Rightarrow> supp_entry \<Rightarrow> point option" where
  "entryPoint e entry =
     (case entry of Undated u \<Rightarrow> None | Dated pt \<Rightarrow> supplementaryPoint e pt)"

text \<open>
  \<^verbatim>\<open>buildSeries\<close>, returning the \<^verbatim>\<open>series\<close> of the artifact (its \<^verbatim>\<open>product\<close> and
  \<^verbatim>\<open>sources\<close> are constants). The calls outside a \<^verbatim>\<open>try\<close> are the fetch of the live
  page, the rate for the live page, the reading of the supplementary file and the
  spreading of its entries.
\<close>

definition buildSeries :: "env \<Rightarrow> bool \<Rightarrow> run_error + point list" where
  "buildSeries e includeWayback =
     (case fetchLive e of
        None \<Rightarrow> Inl LiveFetchFailed
      | Some html \<Rightarrow>
          (let parsed = parsePriceFromHtml html;
               fxFrom = fxFromOf parsed
           in case rateToCad e (todayISO e) fxFrom of
                None \<Rightarrow> Inl LiveFxFailed
              | Some fxRateToCad \<Rightarrow>
                  (let points = pagePoints parsed (todayISO e) fxFrom fxRateToCad None;
                       historical = historicalPoints e includeWayback
                   in case loadSupplementaryPoints e of
                        None \<Rightarrow> Inl SupplementaryUnreadable
                      | Some entries \<Rightarrow>
                          (case spreadEntries (sortComparesUndatedFirst e) entries of
                             None \<Rightarrow> Inl SupplementaryDateMissing
                           | Some supplementary \<Rightarrow>
                               Inr (mergeSeries points historical
                                      (List.map_filter (entryPoint e) supplementary))))))"

text \<open>
  A run for the examples: the live page as given, no archive, a rate service that gives
  the same answer to every question, the supplementary file with the given entries, each
  with its date, and an engine whose sort passes a date-less entry first.
\<close>

definition exampleEnv :: "string option \<Rightarrow> rat option \<Rightarrow> supp_point list \<Rightarrow> env" where
  "exampleEnv page answer supplementary =
     \<lparr>todayISO = 19884, fetchLive = page, frankfurter = (\<lambda>d from to. answer),
      cdxTimestamps = None, fetchSnapshot = (\<lambda>ts. None),
      loadSupplementaryPoints = Some (map Dated supplementary),
      sortComparesUndatedFirst = (\<lambda>entries. True)\<rparr>"

text \<open>An entry without a date, of the given source, for the examples.\<close>

definition exampleUndated :: "string \<Rightarrow> supp_entry" where
  "exampleUndated s =
     Undated \<lparr>u_kind = ''sale'', u_price = \<lparr>amount = 100, currency = ''CAD''\<rparr>,
       u_sourceId = s, u_url = ''https://example.org/listing'', u_wayback = None\<rparr>"

text \<open>The properties of one emitted point that the claims on currency and kind state.\<close>

definition cadIdentity :: "point \<Rightarrow> bool" where
  "cadIdentity p =
     (currency (price p) = ''CAD'' \<longrightarrow>
        cad_amount (priceCad p) = toFixed2 (toDouble (amount (price p))) \<and>
        fx (priceCad p) = None)"

definition kindOk :: "point \<Rightarrow> bool" where
  "kindOk p = (kind p = ''sale'' \<or> kind p = ''msrp'')"

section \<open>The marketplace fetcher (\<^verbatim>\<open>main\<close> of \<^verbatim>\<open>fetch-marketplace.mjs\<close>)\<close>

text \<open>
  \<^verbatim>\<open>const seenKey = (pt) => `${pt.date}|${pt.sourceId}|${pt.price?.amount}`\<close>: the date
  and the number hold no bar, so the key is the triple of its parts.
\<close>

definition seenKey :: "supp_point \<Rightarrow> isodate \<times> string \<times> rat" where
  "seenKey pt = (date pt, sourceId pt, amount (price pt))"

text \<open>
  The loop \<^verbatim>\<open>for (const pt of ...) if (!existingKeys.has(seenKey(pt))) { newPoints.push(pt); existingKeys.add(seenKey(pt)) }\<close>
  on the state \<^verbatim>\<open>existingKeys\<close>, \<^verbatim>\<open>newPoints\<close>.
\<close>

fun addNew :: "supp_point list \<Rightarrow> (isodate \<times> string \<times> rat) set \<times> supp_point list
    \<Rightarrow> (isodate \<times> string \<times> rat) set \<times> supp_point list" where
  "addNew [] st = st"
| "addNew (pt # pts) (existingKeys, newPoints) =
     (if seenKey pt \<notin> existingKeys
      then addNew pts (insert (seenKey pt) existingKeys, newPoints @ [pt])
      else addNew pts (existingKeys, newPoints))"

text \<open>
  One \<^verbatim>\<open>try { ... } catch (e) { console.warn(...) }\<close> block: a fetch that throws adds
  nothing. The points fetched are the result of the parser of the page.
\<close>

definition addFetched :: "supp_point list option
    \<Rightarrow> (isodate \<times> string \<times> rat) set \<times> supp_point list
    \<Rightarrow> (isodate \<times> string \<times> rat) set \<times> supp_point list" where
  "addFetched fetched st = (case fetched of None \<Rightarrow> st | Some pts \<Rightarrow> addNew pts st)"

text \<open>
  The array \<^verbatim>\<open>newPoints\<close> after the blocks for Grailed, eBay and eBay from the archive.
\<close>

definition collectNew :: "supp_point list \<Rightarrow> supp_point list option list \<Rightarrow> supp_point list" where
  "collectNew supplementary fetches =
     snd (foldl (\<lambda>st fetched. addFetched fetched st) (seenKey ` set supplementary, []) fetches)"

text \<open>
  \<^verbatim>\<open>main\<close> of the fetcher with the archive (the third unnamed source file): the content
  of the supplementary file after the run. Nothing is written when there is no new point.
\<close>

definition marketplaceMain :: "supp_point list \<Rightarrow> supp_point list option
    \<Rightarrow> supp_point list option \<Rightarrow> supp_point list option \<Rightarrow> supp_point list" where
  "marketplaceMain supplementary grailed ebay waybackEbay =
     (let newPoints = collectNew supplementary [grailed, ebay, waybackEbay];
          hasNewEbay = list_ex (\<lambda>p. sourceId p = ''ebay'') newPoints;
          kept = (if hasNewEbay then filter (\<lambda>p. sourceId p \<noteq> ''ebay'') supplementary
                  else supplementary)
      in if newPoints \<noteq> [] \<or> hasNewEbay then sortByDateAmount (kept @ newPoints)
         else supplementary)"

text \<open>\<^verbatim>\<open>main\<close> of \<^verbatim>\<open>scripts/fetch-marketplace.mjs\<close>, which has no archive and no refresh.\<close>

definition marketplaceMainAppend :: "supp_point list \<Rightarrow> supp_point list option
    \<Rightarrow> supp_point list option \<Rightarrow> supp_point list" where
  "marketplaceMainAppend supplementary grailed ebay =
     (let newPoints = collectNew supplementary [grailed, ebay]
      in if newPoints \<noteq> [] then sortByDateAmount (supplementary @ newPoints)
         else supplementary)"

text \<open>The points of one source.\<close>

definition ofSource :: "string \<Rightarrow> supp_point list \<Rightarrow> supp_point list" where
  "ofSource s pts = filter (\<lambda>p. sourceId p = s) pts"

section \<open>Sampling the archive snapshots\<close>

text \<open>
  \<^verbatim>\<open>fetchEbayFromWayback\<close>:
  \<^verbatim>\<open>const step = Math.max(1, Math.floor((snapshots.length - 1) / Math.max(1, maxSnapshots - 2)))\<close>,
  reached only when \<^verbatim>\<open>snapshots\<close> is not empty; a \<^verbatim>\<open>maxSnapshots\<close> below 2 gives
  the divisor 1, as the subtraction on natural numbers does.
\<close>

definition sampleStep :: "nat \<Rightarrow> nat \<Rightarrow> nat" where
  "sampleStep n maxSnapshots = max 1 ((n - 1) div max 1 (maxSnapshots - 2))"

text \<open>\<^verbatim>\<open>for (let i = step; i < snapshots.length; i += step) indices.add(i)\<close>\<close>

function stepLoop :: "nat \<Rightarrow> nat \<Rightarrow> nat \<Rightarrow> nat set \<Rightarrow> nat set" where
  "stepLoop step n i indices =
     (if i < n \<and> 0 < step then stepLoop step n (i + step) (insert i indices) else indices)"
  by pat_completeness auto
termination
  by (relation "measure (\<lambda>(step, n, i, indices). n - i)") auto

definition sampleIndices :: "nat \<Rightarrow> nat \<Rightarrow> nat set" where
  "sampleIndices n maxSnapshots =
     insert (n - 1) (stepLoop (sampleStep n maxSnapshots) n (sampleStep n maxSnapshots) {0})"

text \<open>\<^verbatim>\<open>snapshots.filter((_, i) => indices.has(i))\<close>: the snapshots at the chosen indices.\<close>

definition indexedSnapshots :: "nat \<Rightarrow> 'a list \<Rightarrow> 'a list" where
  "indexedSnapshots maxSnapshots snapshots =
     map snd (filter (\<lambda>(i, s). i \<in> sampleIndices (length snapshots) maxSnapshots)
                (enumerate 0 snapshots))"

text \<open>\<^verbatim>\<open>snapshots.filter((_, i) => indices.has(i)).slice(0, maxSnapshots)\<close>\<close>

definition sampleSnapshots :: "nat \<Rightarrow> 'a list \<Rightarrow> 'a list" where
  "sampleSnapshots maxSnapshots snapshots =
     take maxSnapshots
       (map snd (filter (\<lambda>(i, s). i \<in> sampleIndices (length snapshots) maxSnapshots)
                   (enumerate 0 snapshots)))"

text \<open>
  \<^verbatim>\<open>getWaybackMonthlySnapshots\<close> of the older updater, on the timestamps of the index
  rows as texts \<^verbatim>\<open>YYYYMMDDhhmmss\<close>: the first timestamp of each month
  (\<^verbatim>\<open>timestamp.slice(0, 6)\<close>), for the last \<^verbatim>\<open>maxMonths\<close> months in ascending order.
\<close>

fun byMonth :: "string list \<Rightarrow> (string \<times> string) list \<Rightarrow> (string \<times> string) list" where
  "byMonth [] m = m"
| "byMonth (t # ts) m =
     (if map_of m (take 6 t) = None then byMonth ts (m @ [(take 6 t, t)]) else byMonth ts m)"

definition getWaybackMonthlySnapshots :: "string list \<Rightarrow> nat \<Rightarrow> string list" where
  "getWaybackMonthlySnapshots rows maxMonths =
     (let m = byMonth rows [];
          months = sort (map fst m);
          tail = drop (length months - maxMonths) months
      in List.map_filter (map_of m) tail)"

text \<open>Thirty monthly timestamps, January 2022 to June 2024, for the examples.\<close>

definition monthlyTimestamps30 :: "string list" where
  "monthlyTimestamps30 =
     [''20220115120000'', ''20220215120000'', ''20220315120000'', ''20220415120000'',
      ''20220515120000'', ''20220615120000'', ''20220715120000'', ''20220815120000'',
      ''20220915120000'', ''20221015120000'', ''20221115120000'', ''20221215120000'',
      ''20230115120000'', ''20230215120000'', ''20230315120000'', ''20230415120000'',
      ''20230515120000'', ''20230615120000'', ''20230715120000'', ''20230815120000'',
      ''20230915120000'', ''20231015120000'', ''20231115120000'', ''20231215120000'',
      ''20240115120000'', ''20240215120000'', ''20240315120000'', ''20240415120000'',
      ''20240515120000'', ''20240615120000'']"

section \<open>Properties of the de-duplication\<close>

lemma dedupeLoop_subset: "set (dedupeLoop seen pts) \<subseteq> set pts"
  by (induction pts arbitrary: seen) auto

lemma dedupeLoop_keys_fresh:
  "p \<in> set (dedupeLoop seen pts) \<Longrightarrow> dedupeKey p \<notin> seen"
  by (induction pts arbitrary: seen) (auto split: if_splits)

lemma dedupeLoop_distinct: "distinct (map dedupeKey (dedupeLoop seen pts))"
proof (induction pts arbitrary: seen)
  case Nil
  show ?case by simp
next
  case (Cons pt pts)
  have "dedupeKey pt \<notin> dedupeKey ` set (dedupeLoop (insert (dedupeKey pt) seen) pts)"
    using dedupeLoop_keys_fresh by fastforce
  with Cons show ?case by simp
qed

lemma dedupeLoop_keys:
  "dedupeKey ` set (dedupeLoop seen pts) = dedupeKey ` set pts - seen"
  by (induction pts arbitrary: seen) auto

lemma dedupeLoop_first:
  "p \<in> set (dedupeLoop seen pts) \<Longrightarrow> find (\<lambda>q. dedupeKey q = dedupeKey p) pts = Some p"
proof (induction pts arbitrary: seen)
  case Nil
  then show ?case by simp
next
  case (Cons pt pts)
  show ?case
  proof (cases "dedupeKey pt = dedupeKey p")
    case True
    have "p \<notin> set (dedupeLoop (insert (dedupeKey pt) seen) pts)"
      using dedupeLoop_keys_fresh True by fastforce
    moreover have "dedupeKey pt \<notin> seen \<or> p \<in> set (dedupeLoop seen pts)"
      using Cons.prems by (auto split: if_splits)
    moreover have "dedupeKey pt \<in> seen \<Longrightarrow> p \<notin> set (dedupeLoop seen pts)"
      using dedupeLoop_keys_fresh True by fastforce
    ultimately have "p = pt" using Cons.prems by (auto split: if_splits)
    with True show ?thesis by simp
  next
    case False
    then have "p \<in> set (dedupeLoop seen pts) \<or> p \<in> set (dedupeLoop (insert (dedupeKey pt) seen) pts)"
      using Cons.prems by (auto split: if_splits)
    then have "find (\<lambda>q. dedupeKey q = dedupeKey p) pts = Some p"
      using Cons.IH by blast
    with False show ?thesis by simp
  qed
qed

lemma bar_split_unique:
  "barFree c1 \<Longrightarrow> barFree c2 \<Longrightarrow> c1 @ ''|'' @ s1 = c2 @ ''|'' @ s2 \<Longrightarrow> c1 = c2 \<and> s1 = s2"
proof (induction c1 arbitrary: c2)
  case Nil
  then show ?case by (cases c2) (auto simp: barFree_def)
next
  case (Cons a c1)
  then show ?case by (cases c2) (auto simp: barFree_def)
qed

lemma keyTuple_imp_dedupeKey: "keyTuple p = keyTuple q \<Longrightarrow> dedupeKey p = dedupeKey q"
  by (simp add: keyTuple_def dedupeKey_def)

lemma dedupeKey_imp_keyTuple:
  "barFree (currency (price p)) \<Longrightarrow> barFree (currency (price q)) \<Longrightarrow>
   dedupeKey p = dedupeKey q \<Longrightarrow> keyTuple p = keyTuple q"
  using bar_split_unique [of "currency (price p)" "currency (price q)" "sourceId p" "sourceId q"]
  by (simp add: keyTuple_def dedupeKey_def)

lemma set_emitSeries: "set (emitSeries points) = set (dedupe points)"
  by (simp add: emitSeries_def sortByDate_def)

lemma distinct_keyTuple_dedupe: "distinct (map keyTuple (dedupe points))"
proof -
  have "distinct (map dedupeKey (dedupe points))"
    by (simp add: dedupe_def dedupeLoop_distinct)
  then have "inj_on dedupeKey (set (dedupe points))" and d: "distinct (dedupe points)"
    by (simp_all add: distinct_map)
  then have "inj_on keyTuple (set (dedupe points))"
    by (meson inj_on_def keyTuple_imp_dedupeKey)
  with d show ?thesis by (simp add: distinct_map)
qed

lemma distinct_keyTuple_emitSeries: "distinct (map keyTuple (emitSeries points))"
proof -
  have "inj_on keyTuple (set (dedupe points))" and "distinct (dedupe points)"
    using distinct_keyTuple_dedupe [of points] by (simp_all add: distinct_map)
  then show ?thesis
    by (simp add: emitSeries_def sortByDate_def distinct_map)
qed

lemma filter_key_single:
  "distinct (map f xs) \<Longrightarrow> q \<in> set xs \<Longrightarrow> filter (\<lambda>x. f x = f q) xs = [q]"
proof (induction xs)
  case Nil
  then show ?case by simp
next
  case (Cons x xs)
  show ?case
  proof (cases "x = q")
    case True
    have "f q \<notin> f ` set xs" using Cons.prems True by simp
    then have "filter (\<lambda>x. f x = f q) xs = []"
      by (metis (mono_tags, lifting) filter_empty_conv image_eqI)
    with True show ?thesis by simp
  next
    case False
    then have "q \<in> set xs" using Cons.prems by simp
    then have "f x \<noteq> f q" using Cons.prems by auto
    with Cons \<open>q \<in> set xs\<close> show ?thesis by simp
  qed
qed

lemma find_cong_on:
  "(\<And>x. x \<in> set xs \<Longrightarrow> P x = Q x) \<Longrightarrow> find P xs = find Q xs"
  by (induction xs) auto

lemma dedupe_first_survives:
  "p \<in> set points \<Longrightarrow>
   \<exists>q. find (\<lambda>r. dedupeKey r = dedupeKey p) points = Some q \<and> q \<in> set (dedupe points)"
proof -
  assume p: "p \<in> set points"
  have "dedupeKey p \<in> dedupeKey ` set (dedupe points)"
    using p by (simp add: dedupe_def dedupeLoop_keys)
  then obtain q where q: "q \<in> set (dedupe points)" "dedupeKey q = dedupeKey p"
    by auto
  have "find (\<lambda>r. dedupeKey r = dedupeKey q) points = Some q"
    using q(1) dedupeLoop_first by (simp add: dedupe_def)
  with q show ?thesis by auto
qed

text \<open>
  What the loop guarantees. The emitted series holds no two points with the same (date,
  kind, amount, currency, sourceId). When no currency holds the bar that separates the
  fields of the key, then of the input points that share such a tuple exactly one is
  emitted: the first of them in the order primary, historical, supplementary.
\<close>

lemma mergeSeries_first_of_tuple_wins:
  "distinct (map keyTuple (mergeSeries primary historical supplementary)) \<and>
   ((\<forall>p \<in> set (primary @ historical @ supplementary). barFree (currency (price p))) \<longrightarrow>
    (\<forall>p \<in> set (primary @ historical @ supplementary).
       \<exists>q. find (\<lambda>r. keyTuple r = keyTuple p) (primary @ historical @ supplementary) = Some q \<and>
           filter (\<lambda>r. keyTuple r = keyTuple p)
             (mergeSeries primary historical supplementary) = [q]))"
proof (intro conjI impI)
  define points where "points = primary @ historical @ supplementary"
  have d: "distinct (map keyTuple (emitSeries points))"
    by (rule distinct_keyTuple_emitSeries)
  then show "distinct (map keyTuple (mergeSeries primary historical supplementary))"
    by (simp add: mergeSeries_def points_def)
  assume "\<forall>p \<in> set (primary @ historical @ supplementary). barFree (currency (price p))"
  then have bar: "\<And>p. p \<in> set points \<Longrightarrow> barFree (currency (price p))"
    by (simp add: points_def)
  have "\<exists>q. find (\<lambda>r. keyTuple r = keyTuple p) points = Some q \<and>
            filter (\<lambda>r. keyTuple r = keyTuple p) (emitSeries points) = [q]"
    if p: "p \<in> set points" for p
  proof -
    obtain q where q: "find (\<lambda>r. dedupeKey r = dedupeKey p) points = Some q"
        "q \<in> set (dedupe points)"
      using dedupe_first_survives [OF p] by blast
    have same: "(keyTuple r = keyTuple p) = (dedupeKey r = dedupeKey p)" if "r \<in> set points" for r
      using dedupeKey_imp_keyTuple [OF bar [OF that] bar [OF p]] keyTuple_imp_dedupeKey by blast
    have f: "find (\<lambda>r. keyTuple r = keyTuple p) points = Some q"
      using q(1) find_cong_on [of points "\<lambda>r. keyTuple r = keyTuple p" "\<lambda>r. dedupeKey r = dedupeKey p"] same
      by simp
    have qp: "keyTuple q = keyTuple p"
      using f by (auto simp: find_Some_iff)
    have "q \<in> set (emitSeries points)"
      using q(2) by (simp add: set_emitSeries)
    then have "filter (\<lambda>r. keyTuple r = keyTuple q) (emitSeries points) = [q]"
      using filter_key_single [OF d] by blast
    with f qp show ?thesis by simp
  qed
  then show "\<forall>p \<in> set (primary @ historical @ supplementary).
       \<exists>q. find (\<lambda>r. keyTuple r = keyTuple p) (primary @ historical @ supplementary) = Some q \<and>
           filter (\<lambda>r. keyTuple r = keyTuple p)
             (mergeSeries primary historical supplementary) = [q]"
    by (simp add: mergeSeries_def points_def)
qed


lemma dedupeLoop_id:
  "distinct (map dedupeKey pts) \<Longrightarrow> dedupeKey ` set pts \<inter> seen = {} \<Longrightarrow> dedupeLoop seen pts = pts"
  by (induction pts arbitrary: seen) auto

lemma distinct_dedupeKey_emitSeries: "distinct (map dedupeKey (emitSeries points))"
proof -
  have "distinct (map dedupeKey (dedupe points))"
    by (simp add: dedupe_def dedupeLoop_distinct)
  then have "inj_on dedupeKey (set (dedupe points))" and "distinct (dedupe points)"
    by (simp_all add: distinct_map)
  then show ?thesis
    by (simp add: emitSeries_def sortByDate_def distinct_map)
qed

lemma emitSeries_idem: "emitSeries (emitSeries points) = emitSeries points"
proof -
  have "dedupe (emitSeries points) = emitSeries points"
    using dedupeLoop_id [OF distinct_dedupeKey_emitSeries, of points "{}"] by (simp add: dedupe_def)
  moreover have "sorted (map date (emitSeries points))"
    by (simp add: emitSeries_def sortByDate_def)
  ultimately show ?thesis
    by (simp add: emitSeries_def [of "emitSeries points"] sortByDate_def sort_key_id_if_sorted)
qed

text \<open>
  C3. The merge is a function of the three point lists, so equal inputs give the same
  series. The series it returns is sorted ascending by date; points of one date stay in
  the order the de-duplication left them in (the sort is stable), which is the order of
  the input lists; the keys of the series are the keys of the input; and merging the
  returned series again returns it unchanged.
\<close>

theorem mergeSeries_sorted_stable:
  "sorted (map date (mergeSeries primary historical supplementary)) \<and>
   (\<forall>d. filter (\<lambda>q. date q = d) (mergeSeries primary historical supplementary)
        = filter (\<lambda>q. date q = d) (dedupe (primary @ historical @ supplementary))) \<and>
   dedupeKey ` set (mergeSeries primary historical supplementary)
     = dedupeKey ` set (primary @ historical @ supplementary) \<and>
   mergeSeries (mergeSeries primary historical supplementary) [] []
     = mergeSeries primary historical supplementary"
proof -
  have "dedupeKey ` set (dedupe (primary @ historical @ supplementary))
          = dedupeKey ` set (primary @ historical @ supplementary)"
    using dedupeLoop_keys [of "{}"] by (simp add: dedupe_def)
  then show ?thesis
    using emitSeries_idem
    by (simp add: mergeSeries_def emitSeries_def sortByDate_def sort_key_stable
        del: set_append)
qed
section \<open>Properties of the date spreading\<close>

lemma byKey_snoc: "byKey (pts @ [p]) = pushByKey p (byKey pts)"
  by (simp add: byKey_def)

lemma pushByKey_fst:
  "map fst (pushByKey p m) =
     (if spreadKey p \<in> fst ` set m then map fst m else map fst m @ [spreadKey p])"
proof (induction m)
  case Nil
  show ?case by simp
next
  case (Cons a m)
  obtain k g where a: "a = (k, g)" by (cases a)
  show ?case using Cons by (auto simp: a image_iff)
qed

lemma pushByKey_groups_fresh:
  "(\<And>k g. (k, g) \<in> set m \<Longrightarrow> g = filter (\<lambda>q. spreadKey q = k) pts) \<Longrightarrow>
   spreadKey p \<notin> fst ` set m \<Longrightarrow> spreadKey p \<notin> spreadKey ` set pts \<Longrightarrow>
   (k, g) \<in> set (pushByKey p m) \<Longrightarrow> g = filter (\<lambda>q. spreadKey q = k) (pts @ [p])"
proof (induction m)
  case Nil
  then have "\<forall>x \<in> set pts. spreadKey x \<noteq> spreadKey p"
    by (metis image_eqI)
  then have "filter (\<lambda>q. spreadKey q = spreadKey p) pts = []"
    by (simp add: filter_empty_conv)
  with Nil show ?case by auto
next
  case (Cons a m)
  obtain k' g' where a: "a = (k', g')" by (cases a)
  have ne: "k' \<noteq> spreadKey p" using Cons.prems(2) by (auto simp: a)
  have g': "g' = filter (\<lambda>q. spreadKey q = k') pts" using Cons.prems(1) [of k' g'] by (simp add: a)
  have "(k, g) = (k', g') \<or> (k, g) \<in> set (pushByKey p m)"
    using Cons.prems(4) ne by (auto simp: a)
  then show ?case
  proof
    assume "(k, g) = (k', g')"
    then show ?thesis using g' ne by auto
  next
    assume "(k, g) \<in> set (pushByKey p m)"
    moreover have "spreadKey p \<notin> fst ` set m" using Cons.prems(2) by auto
    ultimately show ?thesis using Cons.IH Cons.prems(1,3) by (simp add: a)
  qed
qed

lemma pushByKey_groups_present:
  "(\<And>k g. (k, g) \<in> set m \<Longrightarrow> g = filter (\<lambda>q. spreadKey q = k) pts) \<Longrightarrow>
   distinct (map fst m) \<Longrightarrow> spreadKey p \<in> fst ` set m \<Longrightarrow>
   (k, g) \<in> set (pushByKey p m) \<Longrightarrow> g = filter (\<lambda>q. spreadKey q = k) (pts @ [p])"
proof (induction m)
  case Nil
  then show ?case by simp
next
  case (Cons a m)
  obtain k' g' where a: "a = (k', g')" by (cases a)
  have g': "g' = filter (\<lambda>q. spreadKey q = k') pts" using Cons.prems(1) [of k' g'] by (simp add: a)
  have rest: "\<And>k g. (k, g) \<in> set m \<Longrightarrow> g = filter (\<lambda>q. spreadKey q = k) pts"
    using Cons.prems(1) by simp
  show ?case
  proof (cases "k' = spreadKey p")
    case True
    then have "(k, g) = (k', g' @ [p]) \<or> (k, g) \<in> set m"
      using Cons.prems(4) by (auto simp: a)
    then show ?thesis
    proof
      assume "(k, g) = (k', g' @ [p])"
      then show ?thesis using g' True by auto
    next
      assume m: "(k, g) \<in> set m"
      then have "k \<noteq> k'" using Cons.prems(2) by (auto simp: a image_iff)
      then show ?thesis using rest [OF m] True by auto
    qed
  next
    case False
    then have "(k, g) = (k', g') \<or> (k, g) \<in> set (pushByKey p m)"
      using Cons.prems(4) by (auto simp: a)
    then show ?thesis
    proof
      assume "(k, g) = (k', g')"
      then show ?thesis using g' False by auto
    next
      assume "(k, g) \<in> set (pushByKey p m)"
      moreover have "spreadKey p \<in> fst ` set m" using Cons.prems(3) False by (auto simp: a)
      moreover have "distinct (map fst m)" using Cons.prems(2) by simp
      ultimately show ?thesis using Cons.IH rest by blast
    qed
  qed
qed

lemma byKey_inv:
  "distinct (map fst (byKey pts)) \<and> fst ` set (byKey pts) = spreadKey ` set pts \<and>
   (\<forall>k g. (k, g) \<in> set (byKey pts) \<longrightarrow> g = filter (\<lambda>q. spreadKey q = k) pts)"
proof (induction pts rule: rev_induct)
  case Nil
  show ?case by (simp add: byKey_def)
next
  case (snoc p pts)
  let ?m = "byKey pts"
  have d: "distinct (map fst ?m)" and f: "fst ` set ?m = spreadKey ` set pts"
    and g: "\<And>k g. (k, g) \<in> set ?m \<Longrightarrow> g = filter (\<lambda>q. spreadKey q = k) pts"
    using snoc by blast+
  have fst': "map fst (pushByKey p ?m) =
     (if spreadKey p \<in> fst ` set ?m then map fst ?m else map fst ?m @ [spreadKey p])"
    by (rule pushByKey_fst)
  have 1: "distinct (map fst (pushByKey p ?m))"
    using d by (simp add: fst')
  have "set (map fst (pushByKey p ?m)) = insert (spreadKey p) (set (map fst ?m))"
    unfolding fst' by (simp add: insert_absorb)
  then have "fst ` set (pushByKey p ?m) = insert (spreadKey p) (fst ` set ?m)"
    by simp
  then have 2: "fst ` set (pushByKey p ?m) = spreadKey ` set (pts @ [p])"
    using f by simp
  have 3: "g' = filter (\<lambda>q. spreadKey q = k) (pts @ [p])" if "(k, g') \<in> set (pushByKey p ?m)" for k g'
  proof (cases "spreadKey p \<in> fst ` set ?m")
    case True
    then show ?thesis using pushByKey_groups_present [OF g d True that] by blast
  next
    case False
    then show ?thesis using pushByKey_groups_fresh [OF g False _ that] f by blast
  qed
  show ?case unfolding byKey_snoc using 1 2 3 by blast
qed

lemma byKey_mset:
  "mset (concat (map (\<lambda>(k, g). spreadGroup g) (byKey pts))) =
     (\<Sum>k \<in> spreadKey ` set pts. mset (spreadGroup (filter (\<lambda>q. spreadKey q = k) pts)))"
proof -
  let ?m = "byKey pts"
  have d: "distinct (map fst ?m)" and f: "fst ` set ?m = spreadKey ` set pts"
    and g: "\<And>k g. (k, g) \<in> set ?m \<Longrightarrow> g = filter (\<lambda>q. spreadKey q = k) pts"
    using byKey_inv [of pts] by blast+
  have "map (\<lambda>(k, g). spreadGroup g) ?m =
        map (\<lambda>k. spreadGroup (filter (\<lambda>q. spreadKey q = k) pts)) (map fst ?m)"
    using g by auto
  then have "concat (map (\<lambda>(k, g). spreadGroup g) ?m) =
      concat (map (\<lambda>k. spreadGroup (filter (\<lambda>q. spreadKey q = k) pts)) (map fst ?m))"
    by (rule arg_cong)
  then have "mset (concat (map (\<lambda>(k, g). spreadGroup g) ?m)) =
      (\<Sum>k\<leftarrow>map fst ?m. mset (spreadGroup (filter (\<lambda>q. spreadKey q = k) pts)))"
    by (simp only: mset_concat map_map comp_def)
  also have "\<dots> = (\<Sum>k \<in> set (map fst ?m). mset (spreadGroup (filter (\<lambda>q. spreadKey q = k) pts)))"
    using sum.distinct_set_conv_list [OF d, of "\<lambda>k. mset (spreadGroup (filter (\<lambda>q. spreadKey q = k) pts))"]
    by (simp only:)
  finally show ?thesis using f by (simp only: set_map)
qed

lemma redate_dates:
  "map date (redate b n i xs) = map (\<lambda>j. b - int (n - 1 - j)) [i ..< i + length xs]"
proof (induction xs arbitrary: i)
  case Nil
  show ?case by simp
next
  case (Cons x xs)
  have "[i ..< i + length (x # xs)] = i # [Suc i ..< Suc i + length xs]"
    using upt_conv_Cons [of i "i + length (x # xs)"] by simp
  with Cons [of "Suc i"] show ?case by simp
qed

lemma redate_members:
  "map (\<lambda>p. p\<lparr>date := d\<rparr>) (redate b n i xs) = map (\<lambda>p. p\<lparr>date := d\<rparr>) xs"
  by (induction xs arbitrary: i) auto

lemma length_redate: "length (redate b n i xs) = length xs"
  by (induction xs arbitrary: i) auto

lemma spreadGroup_small: "length g \<le> 1 \<Longrightarrow> spreadGroup g = g"
  by (cases g) (simp_all add: spreadGroup_def)

lemma spreadGroup_large:
  assumes n: "1 < length g" and d: "\<And>p. p \<in> set g \<Longrightarrow> date p = d"
  shows "map date (spreadGroup g) = map (\<lambda>i. d - int (length g - 1 - i)) [0 ..< length g]"
    and "map (\<lambda>p. p\<lparr>date := d\<rparr>) (spreadGroup g) = sort_key (\<lambda>p. amount (price p)) g"
proof -
  obtain first rest where g: "g = first # rest" using n by (cases g) auto
  have b: "date first = d" using d g by simp
  have sg: "spreadGroup g = redate d (length g) 0 (sort_key (\<lambda>p. amount (price p)) g)"
    using n b by (simp add: spreadGroup_def g)
  show "map date (spreadGroup g) = map (\<lambda>i. d - int (length g - 1 - i)) [0 ..< length g]"
    using redate_dates [of d "length g" 0 "sort_key (\<lambda>p. amount (price p)) g"]
    by (simp add: sg)
  have "map (\<lambda>p. p\<lparr>date := d\<rparr>) (sort_key (\<lambda>p. amount (price p)) g) = sort_key (\<lambda>p. amount (price p)) g"
    using d by (intro map_idI) simp
  then show "map (\<lambda>p. p\<lparr>date := d\<rparr>) (spreadGroup g) = sort_key (\<lambda>p. amount (price p)) g"
    by (simp add: sg redate_members)
qed

text \<open>
  C2. The pre-process groups the supplementary points on (sourceId, date): its result
  holds, up to the final sort by date and amount, the spread groups of the input and
  nothing else. A group of one point is left as it is. A group of \<open>n > 1\<close> points of
  the date \<open>d\<close> comes out sorted by ascending amount and dated \<open>d - (n - 1)\<close>, ...,
  \<open>d - 1\<close>, \<open>d\<close> in that order: consecutive days ending on \<open>d\<close>, the lowest amount on
  the earliest. The example is three points of the source X on day 19884 (2024-06-10).
\<close>

theorem spreadSupplementaryDates_spreads_groups:
  "mset (spreadSupplementaryDates points) =
     (\<Sum>k \<in> spreadKey ` set points. mset (spreadGroup (filter (\<lambda>p. spreadKey p = k) points))) \<and>
   sorted (map (\<lambda>p. (date p, amount (price p))) (spreadSupplementaryDates points)) \<and>
   (\<forall>s d. let g = filter (\<lambda>p. spreadKey p = (s, d)) points; n = length g in
      (n \<le> 1 \<longrightarrow> spreadGroup g = g) \<and>
      (1 < n \<longrightarrow>
         map date (spreadGroup g) = map (\<lambda>i. d - int (n - 1 - i)) [0 ..< n] \<and>
         map (\<lambda>p. p\<lparr>date := d\<rparr>) (spreadGroup g) = sort_key (\<lambda>p. amount (price p)) g))"
proof -
  have 1: "mset (spreadSupplementaryDates points) =
     (\<Sum>k \<in> spreadKey ` set points. mset (spreadGroup (filter (\<lambda>p. spreadKey p = k) points)))"
    using byKey_mset [of points] by (simp add: spreadSupplementaryDates_def sortByDateAmount_def)
  have 2: "sorted (map (\<lambda>p. (date p, amount (price p))) (spreadSupplementaryDates points))"
    by (simp add: spreadSupplementaryDates_def sortByDateAmount_def)
  have 3: "map date (spreadGroup g) = map (\<lambda>i. d - int (length g - 1 - i)) [0 ..< length g] \<and>
         map (\<lambda>p. p\<lparr>date := d\<rparr>) (spreadGroup g) = sort_key (\<lambda>p. amount (price p)) g"
    if "g = filter (\<lambda>p. spreadKey p = (s, d)) points" "1 < length g" for g s d
  proof -
    have "\<And>p. p \<in> set g \<Longrightarrow> date p = d" using that(1) by (auto simp: spreadKey_def)
    then show ?thesis using spreadGroup_large [OF that(2)] by blast
  qed
  show ?thesis using 1 2 3 spreadGroup_small by (simp add: Let_def)
qed

theorem spreadSupplementaryDates_spreads_groups_witness:
  "length (filter (\<lambda>p. spreadKey p = (''X'', 19884))
      [exampleSupp 19884 ''sale'' 150 ''USD'' ''X'', exampleSupp 19884 ''sale'' 100 ''USD'' ''X'',
       exampleSupp 19884 ''sale'' 120 ''USD'' ''X'', exampleSupp 19884 ''sale'' 99 ''USD'' ''Y'']) = 3 \<and>
   map (\<lambda>p. (sourceId p, date p, amount (price p)))
     (spreadSupplementaryDates
       [exampleSupp 19884 ''sale'' 150 ''USD'' ''X'', exampleSupp 19884 ''sale'' 100 ''USD'' ''X'',
        exampleSupp 19884 ''sale'' 120 ''USD'' ''X'', exampleSupp 19884 ''sale'' 99 ''USD'' ''Y''])
     = [(''X'', 19882, 100), (''X'', 19883, 120), (''Y'', 19884, 99), (''X'', 19884, 150)] \<and>
   map date (spreadGroup (filter (\<lambda>p. spreadKey p = (''X'', 19884))
      [exampleSupp 19884 ''sale'' 150 ''USD'' ''X'', exampleSupp 19884 ''sale'' 100 ''USD'' ''X'',
       exampleSupp 19884 ''sale'' 120 ''USD'' ''X'', exampleSupp 19884 ''sale'' 99 ''USD'' ''Y'']))
     = [19882, 19883, 19884]"
  using spreadSupplementaryDates_spreads_groups
    [of "[exampleSupp 19884 ''sale'' 150 ''USD'' ''X'', exampleSupp 19884 ''sale'' 100 ''USD'' ''X'',
          exampleSupp 19884 ''sale'' 120 ''USD'' ''X'', exampleSupp 19884 ''sale'' 99 ''USD'' ''Y'']"]
  by (simp add: spreadSupplementaryDates_def byKey_def spreadKey_def spreadGroup_def
      sortByDateAmount_def exampleSupp_def)
section \<open>Properties of the extractors\<close>

lemma pushInRange_inv:
  assumes mk: "\<And>a. amount (price (mk a)) = a"
  shows "(\<forall>p \<in> set points. lo \<le> amount (price p) \<and> amount (price p) \<le> hi) \<Longrightarrow>
     distinct (map (\<lambda>p. amount (price p)) points) \<Longrightarrow>
     (\<lambda>p. amount (price p)) ` set points \<subseteq> seen \<Longrightarrow>
     pushInRange lo hi mk ms (seen, points) = (seen', points') \<Longrightarrow>
     (\<forall>p \<in> set points'. lo \<le> amount (price p) \<and> amount (price p) \<le> hi) \<and>
     distinct (map (\<lambda>p. amount (price p)) points') \<and>
     (\<lambda>p. amount (price p)) ` set points' \<subseteq> seen'"
proof (induction ms arbitrary: seen points)
  case Nil
  then show ?case by simp
next
  case (Cons m ms)
  let ?a = "Number m"
  show ?case
  proof (cases "lo \<le> ?a \<and> ?a \<le> hi \<and> ?a \<notin> seen")
    case True
    then have run: "pushInRange lo hi mk ms (insert ?a seen, points @ [mk ?a]) = (seen', points')"
      using Cons.prems(4) by (simp add: Let_def)
    have fresh: "?a \<notin> (\<lambda>p. amount (price p)) ` set points"
      using True Cons.prems(3) by blast
    have 1: "\<forall>p \<in> set (points @ [mk ?a]). lo \<le> amount (price p) \<and> amount (price p) \<le> hi"
      using Cons.prems(1) True by (simp add: mk)
    have 2: "distinct (map (\<lambda>p. amount (price p)) (points @ [mk ?a]))"
      using Cons.prems(2) fresh by (simp add: mk)
    have 3: "(\<lambda>p. amount (price p)) ` set (points @ [mk ?a]) \<subseteq> insert ?a seen"
      using Cons.prems(3) by (auto simp: mk)
    show ?thesis by (rule Cons.IH [OF 1 2 3 run])
  next
    case False
    then have run: "pushInRange lo hi mk ms (seen, points) = (seen', points')"
      using Cons.prems(4) by (auto simp: Let_def)
    show ?thesis by (rule Cons.IH [OF Cons.prems(1,2,3) run])
  qed
qed

lemma salePoint_amount: "amount (price (salePoint d a s u)) = a"
  by (simp add: salePoint_def)

lemma parseGrailedPrices_inv:
  "(\<forall>p \<in> set (parseGrailedPrices today html). 80 \<le> amount (price p) \<and> amount (price p) \<le> 350) \<and>
   distinct (map (\<lambda>p. amount (price p)) (parseGrailedPrices today html))"
proof -
  let ?mk = "\<lambda>amt. salePoint today amt ''grailed'' GRAILED_SEARCH"
  obtain s1 p1 where r1: "pushInRange 80 350 ?mk (matchAll grailedPriceRe html) ({}, []) = (s1, p1)"
    by (cases "pushInRange 80 350 ?mk (matchAll grailedPriceRe html) ({}, [])")
  obtain s2 p2 where r2: "pushInRange 80 350 ?mk (matchAll grailedUsdRe html) (s1, p1) = (s2, p2)"
    by (cases "pushInRange 80 350 ?mk (matchAll grailedUsdRe html) (s1, p1)")
  obtain s3 p3 where r3: "pushInRange 80 350 ?mk (matchAll grailedPlainDollarRe html) (s2, p2) = (s3, p3)"
    by (cases "pushInRange 80 350 ?mk (matchAll grailedPlainDollarRe html) (s2, p2)")
  have i1: "(\<forall>p \<in> set p1. 80 \<le> amount (price p) \<and> amount (price p) \<le> 350) \<and>
     distinct (map (\<lambda>p. amount (price p)) p1) \<and> (\<lambda>p. amount (price p)) ` set p1 \<subseteq> s1"
    by (rule pushInRange_inv [where mk = ?mk, OF salePoint_amount _ _ _ r1]) simp_all
  have i2: "(\<forall>p \<in> set p2. 80 \<le> amount (price p) \<and> amount (price p) \<le> 350) \<and>
     distinct (map (\<lambda>p. amount (price p)) p2) \<and> (\<lambda>p. amount (price p)) ` set p2 \<subseteq> s2"
    using i1 by (intro pushInRange_inv [where mk = ?mk, OF salePoint_amount _ _ _ r2]) blast+
  have i3: "(\<forall>p \<in> set p3. 80 \<le> amount (price p) \<and> amount (price p) \<le> 350) \<and>
     distinct (map (\<lambda>p. amount (price p)) p3) \<and> (\<lambda>p. amount (price p)) ` set p3 \<subseteq> s3"
    using i2 by (intro pushInRange_inv [where mk = ?mk, OF salePoint_amount _ _ _ r3]) blast+
  have "parseGrailedPrices today html = p3"
    by (simp add: parseGrailedPrices_def Let_def r1 r2 r3)
  with i3 show ?thesis by blast
qed

text \<open>
  The number a price text is read as: 225.00 is 225, and 199.99 is the number
  \<open>879565321755689 / 2^42\<close>, nearest to it.
\<close>

lemma Number_nearest:
  \<open>Number ''225.00'' = 225\<close>
  \<open>Number ''199.99'' = 879565321755689 / 2 ^ 42\<close>
  \<open>Number ''199.99'' = toDouble (19999 / 100)\<close>
  by code_simp+

lemma grailed_example:
  \<open>map (\<lambda>p. amount (price p))
      (parseGrailedPrices today ''<li>{"price":"5"}</li><li>{"price":"199.99"}</li>'') = [toDouble (19999 / 100)]\<close>
  by code_simp

lemma literal_set: "literal p s = Some r \<Longrightarrow> set r \<subseteq> set s"
  by (induction p s rule: literal.induct) (auto split: if_splits)

lemma literalCI_set: "literalCI p s = Some r \<Longrightarrow> set r \<subseteq> set s"
  by (induction p s rule: literalCI.induct) (auto split: if_splits)

lemma skipSpaces_set: "set (skipSpaces s) \<subseteq> set s"
  by (auto simp: skipSpaces_def dest: set_dropWhileD)

lemma optChar_set: "set (optChar q s) \<subseteq> set s"
  by (cases s) auto

lemma digits1_none: "\<forall>c \<in> set s. \<not> isDigit c \<Longrightarrow> digits1 s = None"
  by (cases s) (auto simp: digits1_def)

lemma digits23_none: "\<forall>c \<in> set s. \<not> isDigit c \<Longrightarrow> digits23 s = None"
  by (cases s) (auto simp: digits23_def)

lemma matchAll_none: "(\<And>t. set t \<subseteq> set s \<Longrightarrow> m t = None) \<Longrightarrow> matchAll m s = []"
proof (induction s)
  case Nil
  then show ?case by simp
next
  case (Cons c cs)
  have "m (c # cs) = None" using Cons.prems by simp
  moreover have "matchAll m cs = []"
    using Cons.prems by (intro Cons.IH) auto
  ultimately show ?case by simp
qed

lemma firstMatch_none: "(\<And>t. set t \<subseteq> set s \<Longrightarrow> m t = None) \<Longrightarrow> firstMatch m s = None"
proof (induction s)
  case Nil
  then show ?case by simp
next
  case (Cons c cs)
  have "m (c # cs) = None" using Cons.prems by simp
  moreover have "firstMatch m cs = None"
    using Cons.prems by (intro Cons.IH) auto
  ultimately show ?case by simp
qed

lemma grailedPriceRe_none: "\<forall>c \<in> set t. \<not> isDigit c \<Longrightarrow> grailedPriceRe t = None"
proof -
  assume nd: "\<forall>c \<in> set t. \<not> isDigit c"
  have "digits23 (optChar (CHR 0x22) (skipSpaces s2)) = None"
    if "literal ''\"price\"'' t = Some s1" "literal '':'' (skipSpaces s1) = Some s2" for s1 s2
  proof -
    have "set (optChar (CHR 0x22) (skipSpaces s2)) \<subseteq> set t"
      using literal_set [OF that(1)] literal_set [OF that(2)] skipSpaces_set optChar_set
      by (meson subset_trans)
    then show ?thesis using nd by (intro digits23_none) blast
  qed
  then show ?thesis
    by (simp add: grailedPriceRe_def split: option.splits)
qed

lemma dropWhile_set: "set (dropWhile P s) \<subseteq> set s"
  by (auto dest: set_dropWhileD)

lemma grailedUsdRe_none: "\<forall>c \<in> set t. \<not> isDigit c \<Longrightarrow> grailedUsdRe t = None"
proof -
  assume nd: "\<forall>c \<in> set t. \<not> isDigit c"
  have "digits23 (skipSpaces s1) = None" if "literal ''$'' t = Some s1" for s1
  proof -
    have "set (skipSpaces s1) \<subseteq> set t"
      using literal_set [OF that] skipSpaces_set by (meson subset_trans)
    then show ?thesis using nd by (intro digits23_none) blast
  qed
  then show ?thesis
    by (simp add: grailedUsdRe_def split: option.splits)
qed

lemma grailedPlainDollarRe_none: "\<forall>c \<in> set t. \<not> isDigit c \<Longrightarrow> grailedPlainDollarRe t = None"
proof -
  assume nd: "\<forall>c \<in> set t. \<not> isDigit c"
  have "digits23 s1 = None" if "literal ''$'' t = Some s1" for s1
    using literal_set [OF that] nd by (intro digits23_none) blast
  then show ?thesis
    by (simp add: grailedPlainDollarRe_def split: option.splits)
qed

lemma ebayPriceRe_none: "\<forall>c \<in> set t. \<not> isDigit c \<Longrightarrow> ebayPriceRe t = None"
proof -
  assume nd: "\<forall>c \<in> set t. \<not> isDigit c"
  have "digits1 (skipSpaces s1) = None" if "literal ''$'' t = Some s1" for s1
  proof -
    have "set (skipSpaces s1) \<subseteq> set t"
      using literal_set [OF that] skipSpaces_set by (meson subset_trans)
    then show ?thesis using nd by (intro digits1_none) blast
  qed
  then show ?thesis
    by (simp add: ebayPriceRe_def split: option.splits)
qed

lemma ebaySpanRe_none: "\<forall>c \<in> set t. \<not> isDigit c \<Longrightarrow> ebaySpanRe t = None"
proof -
  assume nd: "\<forall>c \<in> set t. \<not> isDigit c"
  have "digits1 (dropWhile (\<lambda>c. isSpace c \<or> c = CHR ''$'') s2) = None"
    if "literal ''s-item__price'' t = Some s1"
       "literal ''>'' (dropWhile (\<lambda>c. c \<noteq> CHR ''>'') s1) = Some s2" for s1 s2
  proof -
    have "set (dropWhile (\<lambda>c. isSpace c \<or> c = CHR ''$'') s2) \<subseteq> set s2"
      by (rule dropWhile_set)
    also have "\<dots> \<subseteq> set (dropWhile (\<lambda>c. c \<noteq> CHR ''>'') s1)"
      by (rule literal_set [OF that(2)])
    also have "\<dots> \<subseteq> set s1" by (rule dropWhile_set)
    also have "\<dots> \<subseteq> set t" by (rule literal_set [OF that(1)])
    finally show ?thesis using nd by (intro digits1_none) blast
  qed
  then show ?thesis
    by (simp add: ebaySpanRe_def split: option.splits)
qed

lemma jsonLdPriceRe_none: "\<forall>c \<in> set t. \<not> isDigit c \<Longrightarrow> jsonLdPriceRe t = None"
proof -
  assume nd: "\<forall>c \<in> set t. \<not> isDigit c"
  have "digits1 (optChar (CHR 0x22) (skipSpaces s2)) = None"
    if "literalCI ''\"price\"'' t = Some s1" "literal '':'' (skipSpaces s1) = Some s2" for s1 s2
  proof -
    have "set (optChar (CHR 0x22) (skipSpaces s2)) \<subseteq> set t"
      using literalCI_set [OF that(1)] literal_set [OF that(2)] skipSpaces_set optChar_set
      by (meson subset_trans)
    then show ?thesis using nd by (intro digits1_none) blast
  qed
  then show ?thesis
    by (simp add: jsonLdPriceRe_def split: option.splits)
qed

lemma textPriceRe_none: "\<forall>c \<in> set t. \<not> isDigit c \<Longrightarrow> textPriceRe t = None"
proof -
  assume nd: "\<forall>c \<in> set t. \<not> isDigit c"
  have "digits1 (skipSpaces s1) = None" if "literal ''$'' t = Some s1" for s1
  proof -
    have "set (skipSpaces s1) \<subseteq> set t"
      using literal_set [OF that] skipSpaces_set by (meson subset_trans)
    then show ?thesis using nd by (intro digits1_none) blast
  qed
  then show ?thesis
    by (simp add: textPriceRe_def split: option.splits)
qed

lemma no_digit_subset: "\<forall>c \<in> set html. \<not> isDigit c \<Longrightarrow> set t \<subseteq> set html \<Longrightarrow> \<forall>c \<in> set t. \<not> isDigit c"
  by blast

lemma no_digits_no_price:
  assumes "\<forall>c \<in> set html. \<not> isDigit c"
  shows "parseGrailedPrices today html = [] \<and> parseEbayPrices today html = [] \<and>
         current (parsePriceFromHtml html) = None \<and> regular (parsePriceFromHtml html) = None"
proof -
  note nd = no_digit_subset [OF assms]
  have g: "matchAll grailedPriceRe html = []" "matchAll grailedUsdRe html = []"
      "matchAll grailedPlainDollarRe html = []"
    using nd grailedPriceRe_none grailedUsdRe_none grailedPlainDollarRe_none
    by (simp_all add: matchAll_none)
  have e: "matchAll ebayPriceRe html = []" "matchAll ebaySpanRe html = []"
    using nd ebayPriceRe_none ebaySpanRe_none by (simp_all add: matchAll_none)
  have p: "firstMatch jsonLdPriceRe html = None" "firstMatch textPriceRe html = None"
    using nd jsonLdPriceRe_none textPriceRe_none by (simp_all add: firstMatch_none)
  show ?thesis
    by (simp add: parseGrailedPrices_def parseEbayPrices_def parsePriceFromHtml_def g e p)
qed

text \<open>
  C8. Every amount \<^verbatim>\<open>parseGrailedPrices\<close> returns lies in the range 80 to 350, and no
  amount is returned twice in one parse. A page holding \<^verbatim>\<open>"price":"5"\<close> and
  \<^verbatim>\<open>"price":"199.99"\<close> yields the single candidate 199.99 (the number nearest to it).
\<close>

theorem parseGrailedPrices_plausible:
  \<open>(\<forall>p \<in> set (parseGrailedPrices today html).
       80 \<le> amount (price p) \<and> amount (price p) \<le> 350) \<and>
   distinct (map (\<lambda>p. amount (price p)) (parseGrailedPrices today html)) \<and>
   map (\<lambda>p. amount (price p))
     (parseGrailedPrices today ''<li>{"price":"5"}</li><li>{"price":"199.99"}</li>'')
     = [toDouble (19999 / 100)]\<close>
proof (intro conjI)
  show "\<forall>p \<in> set (parseGrailedPrices today html).
       80 \<le> amount (price p) \<and> amount (price p) \<le> 350"
    using parseGrailedPrices_inv [of today html] by blast
  show "distinct (map (\<lambda>p. amount (price p)) (parseGrailedPrices today html))"
    using parseGrailedPrices_inv [of today html] by blast
  show \<open>map (\<lambda>p. amount (price p))
     (parseGrailedPrices today ''<li>{"price":"5"}</li><li>{"price":"199.99"}</li>'')
     = [toDouble (19999 / 100)]\<close>
    by (rule grailed_example)
qed

theorem parseGrailedPrices_plausible_witness:
  \<open>list_all (\<lambda>p. 80 \<le> amount (price p) \<and> amount (price p) \<le> 350)
     (parseGrailedPrices 19884 ''{"price":"5"} {"price":"199.99"} $120 USD $1999 "price": 120'') \<and>
   map (\<lambda>p. amount (price p))
     (parseGrailedPrices 19884 ''{"price":"5"} {"price":"199.99"} $120 USD $1999 "price": 120'')
     = [toDouble (19999 / 100), 120]\<close>
proof -
  have \<open>map (\<lambda>p. amount (price p))
     (parseGrailedPrices 19884 ''{"price":"5"} {"price":"199.99"} $120 USD $1999 "price": 120'')
     = [toDouble (19999 / 100), 120]\<close>
    by code_simp
  then show ?thesis
    using parseGrailedPrices_plausible
      [of 19884 \<open>''{"price":"5"} {"price":"199.99"} $120 USD $1999 "price": 120''\<close>]
    by (simp add: list_all_iff)
qed

text \<open>
  C9. The extractors are total functions of the page text: they only match, convert
  and collect, and have no failing branch. When none of its patterns matches, an
  extractor returns the empty candidate list, or the fields \<^verbatim>\<open>current\<close> and
  \<^verbatim>\<open>regular\<close> both null. A page without a digit, the empty page among them, is such
  a page.
\<close>

theorem extractors_no_match_no_price:
  "(matchAll grailedPriceRe html = [] \<and> matchAll grailedUsdRe html = [] \<and>
      matchAll grailedPlainDollarRe html = [] \<longrightarrow> parseGrailedPrices today html = []) \<and>
   (matchAll ebayPriceRe html = [] \<and> matchAll ebaySpanRe html = []
      \<longrightarrow> parseEbayPrices today html = []) \<and>
   (firstMatch jsonLdPriceRe html = None \<and> firstMatch textPriceRe html = None
      \<longrightarrow> current (parsePriceFromHtml html) = None \<and>
          regular (parsePriceFromHtml html) = None) \<and>
   ((\<forall>c \<in> set html. \<not> isDigit c) \<longrightarrow>
      parseGrailedPrices today html = [] \<and> parseEbayPrices today html = [] \<and>
      current (parsePriceFromHtml html) = None \<and> regular (parsePriceFromHtml html) = None)"
proof (intro conjI impI)
  assume "matchAll grailedPriceRe html = [] \<and> matchAll grailedUsdRe html = [] \<and>
      matchAll grailedPlainDollarRe html = []"
  then show "parseGrailedPrices today html = []"
    by (simp add: parseGrailedPrices_def)
next
  assume "matchAll ebayPriceRe html = [] \<and> matchAll ebaySpanRe html = []"
  then show "parseEbayPrices today html = []"
    by (simp add: parseEbayPrices_def)
next
  assume a: "firstMatch jsonLdPriceRe html = None \<and> firstMatch textPriceRe html = None"
  then show "current (parsePriceFromHtml html) = None"
    by (simp add: parsePriceFromHtml_def)
  show "regular (parsePriceFromHtml html) = None"
    by (simp add: parsePriceFromHtml_def)
next
  assume nd: "\<forall>c \<in> set html. \<not> isDigit c"
  show "parseGrailedPrices today html = []" "parseEbayPrices today html = []"
    "current (parsePriceFromHtml html) = None" "regular (parsePriceFromHtml html) = None"
    using no_digits_no_price [OF nd, of today] by simp_all
qed

theorem extractors_no_match_no_price_witness:
  "parseGrailedPrices 19884 ''<html><body>Sold out</body>'' = [] \<and>
   parseEbayPrices 19884 ''<html><body>Sold out</body>'' = [] \<and>
   current (parsePriceFromHtml ''<html><body>Sold out</body>'') = None \<and>
   regular (parsePriceFromHtml ''<html><body>Sold out</body>'') = None \<and>
   parseGrailedPrices 19884 [] = [] \<and> parseEbayPrices 19884 [] = [] \<and>
   current (parsePriceFromHtml []) = None"
  using extractors_no_match_no_price [of "''<html><body>Sold out</body>''" 19884]
    extractors_no_match_no_price [of "[]" 19884]
  by (simp add: isDigit_def)

section \<open>Properties of the rounding\<close>

lemma roundHalfEven_near: "\<bar>of_int (roundHalfEven q) - q\<bar> \<le> 1 / 2"
proof -
  have "of_int \<lfloor>q\<rfloor> \<le> q" "q < of_int \<lfloor>q\<rfloor> + 1" by linarith+
  then show ?thesis by (auto simp: roundHalfEven_def Let_def)
qed

lemma expo_lower:
  assumes "0 < x"
  shows "2 powi (expo x) \<le> x"
proof -
  obtain p q where pq: "quotient_of x = (p, q)" by (cases "quotient_of x")
  have q: "0 < q" using quotient_of_denom_pos [OF pq] .
  have x: "x = of_int p / of_int q" using quotient_of_div [OF pq] .
  have p: "0 < p" using assms q x by (simp add: zero_less_divide_iff)
  let ?k = "bitlen p - bitlen q"
  show ?thesis
  proof (cases "2 powi ?k \<le> x")
    case True
    then show ?thesis by (simp add: expo_def pq Let_def)
  next
    case False
    have bp: "2 ^ nat (bitlen p - 1) \<le> p" using bitlen_bounds [OF p] by simp
    have bq: "q < 2 ^ nat (bitlen q)" using bitlen_bounds [OF q] by simp
    have p1: "1 \<le> bitlen p" using p bitlen_eq_zero_iff [of p] bitlen_nonneg [of p] by linarith
    have "(2::rat) powi (?k - 1) = 2 powi (bitlen p - 1) / 2 powi (bitlen q)"
      using power_int_diff [of "2::rat" "bitlen p - 1" "bitlen q"] by (simp add: algebra_simps)
    also have "\<dots> = 2 ^ nat (bitlen p - 1) / 2 ^ nat (bitlen q)"
      using p1 bitlen_nonneg [of q] by (simp add: power_int_def)
    also have "\<dots> \<le> of_int p / of_int q"
    proof -
      have "(of_int (2 ^ nat (bitlen p - 1)) :: rat) \<le> of_int p"
        using bp by (simp only: of_int_le_iff)
      then have a: "(2::rat) ^ nat (bitlen p - 1) \<le> of_int p" by simp
      have "(of_int q :: rat) \<le> of_int (2 ^ nat (bitlen q))"
        using bq by (simp only: of_int_le_iff)
      then have b: "(of_int q :: rat) \<le> 2 ^ nat (bitlen q)" by simp
      have c: "(0::rat) < of_int q" using q by simp
      have d: "(0::rat) \<le> of_int p" using p by simp
      show ?thesis by (rule frac_le [OF d a c b])
    qed
    finally have "2 powi (?k - 1) \<le> x" using x by simp
    with False show ?thesis by (simp add: expo_def pq Let_def)
  qed
qed

text \<open>A normal number is within half a unit in the last place of the rational it rounds.\<close>

lemma toDouble_error:
  assumes "2 powi (- 1022) \<le> x"
  shows "\<bar>toDouble x - x\<bar> \<le> x / 2 ^ 53"
proof -
  have pos: "0 < x"
    using assms zero_less_power_int [of "2::rat" "- 1022"] by linarith
  define e where "e = max (expo x) (- 1022)"
  define u :: rat where "u = 2 powi (e - 52)"
  have upos: "0 < u" by (simp add: u_def)
  have e: "2 powi e \<le> x"
    using expo_lower [OF pos] assms by (simp add: e_def max_def)
  have u: "u = 2 powi e / 2 ^ 52"
    using power_int_diff [of "2::rat" e 52] by (simp add: u_def)
  have td: "toDouble x = of_int (roundHalfEven (x / u)) * u"
    using pos by (simp add: toDouble_def toDoublePos_def Let_def e_def u_def)
  have "toDouble x - x = (of_int (roundHalfEven (x / u)) - x / u) * u"
    using upos by (simp add: td field_simps)
  then have "\<bar>toDouble x - x\<bar> = \<bar>of_int (roundHalfEven (x / u)) - x / u\<bar> * u"
    using upos by (simp add: abs_mult)
  also have "\<dots> \<le> (1 / 2) * u"
    using roundHalfEven_near [of "x / u"] upos by (intro mult_right_mono) simp_all
  also have "\<dots> = 2 powi e / 2 ^ 53" by (simp add: u)
  also have "\<dots> \<le> x / 2 ^ 53" using e by (simp add: divide_right_mono)
  finally show ?thesis .
qed

text \<open>
  The number nearest to a decimal of two places prints with \<^verbatim>\<open>toFixed(2)\<close> as that
  decimal, and is read back as itself.
\<close>

lemma toFixed2_two_decimals:
  assumes "0 \<le> n" "n < 2 ^ 52"
  shows "toFixed2 (toDouble (of_int n / 100)) = toDouble (of_int n / 100)"
proof (cases "n = 0")
  case True
  have "\<lfloor>(1 / 2)::rat\<rfloor> = 0" by (rule floor_unique) simp_all
  then show ?thesis using True by (simp add: toFixed2_def toDouble_def)
next
  case False
  then have n1: "1 \<le> n" using assms(1) by simp
  define x :: rat where "x = of_int n / 100"
  define y where "y = toDouble x"
  have x1: "1 / 100 \<le> x" using n1 by (simp add: x_def)
  have "(2::rat) powi (- 1022) \<le> 2 powi (- 7)"
    by (rule power_int_increasing) simp_all
  also have "\<dots> = 1 / 128" by (simp add: power_int_def field_simps)
  also have "\<dots> \<le> 1 / 100" by simp
  finally have low: "2 powi (- 1022) \<le> x" using x1 by simp
  have err: "\<bar>y - x\<bar> \<le> x / 2 ^ 53"
    unfolding y_def by (rule toDouble_error [OF low])
  have nb: "(of_int n :: rat) < 2 ^ 52"
    using assms(2) by (metis of_int_less_iff of_int_numeral of_int_power)
  have "100 * \<bar>y - x\<bar> \<le> of_int n / 2 ^ 53"
    using err by (simp add: x_def)
  also have "\<dots> < 1 / 2" using nb by simp
  finally have close: "\<bar>100 * y - of_int n\<bar> < 1 / 2"
    by (simp add: x_def abs_if split: if_splits)
  have ypos: "0 \<le> y" using close n1 by (simp add: abs_if split: if_splits)
  have ysmall: "\<bar>y\<bar> < 10 ^ 21"
  proof -
    have "100 * y < of_int n + 1 / 2" using close by (simp add: abs_if split: if_splits)
    also have "\<dots> < 2 ^ 52 + 1 / 2" using nb by simp
    finally show ?thesis using ypos by simp
  qed
  have fl: "\<lfloor>y * 100 + 1 / 2\<rfloor> = n"
    using close by (intro floor_unique) (simp_all add: abs_if split: if_splits)
  have "toFixed2 y = toDouble (of_int n / 100)"
    using ypos ysmall fl by (simp add: toFixed2_def)
  then show ?thesis by (simp add: y_def x_def)
qed

lemma expo_upper:
  assumes "0 < x"
  shows "x < 2 powi (expo x + 1)"
proof -
  obtain p q where pq: "quotient_of x = (p, q)" by (cases "quotient_of x")
  have q: "0 < q" using quotient_of_denom_pos [OF pq] .
  have x: "x = of_int p / of_int q" using quotient_of_div [OF pq] .
  have p: "0 < p" using assms q x by (simp add: zero_less_divide_iff)
  let ?k = "bitlen p - bitlen q"
  show ?thesis
  proof (cases "2 powi ?k \<le> x")
    case False
    then show ?thesis by (simp add: expo_def pq Let_def)
  next
    case True
    have bp: "p < 2 ^ nat (bitlen p)" using bitlen_bounds [OF p] by simp
    have bq: "2 ^ nat (bitlen q - 1) \<le> q" using bitlen_bounds [OF q] by simp
    have q1: "1 \<le> bitlen q" using q bitlen_eq_zero_iff [of q] bitlen_nonneg [of q] by linarith
    have "(of_int p :: rat) < of_int (2 ^ nat (bitlen p))"
      using bp by (simp only: of_int_less_iff)
    then have a: "(of_int p :: rat) < 2 ^ nat (bitlen p)" by simp
    have "(of_int (2 ^ nat (bitlen q - 1)) :: rat) \<le> of_int q"
      using bq by (simp only: of_int_le_iff)
    then have b: "(2::rat) ^ nat (bitlen q - 1) \<le> of_int q" by simp
    have c: "(0::rat) < 2 ^ nat (bitlen q - 1)" by simp
    have d: "(0::rat) \<le> of_int p" using p by simp
    have "of_int p / of_int q < (2::rat) ^ nat (bitlen p) / 2 ^ nat (bitlen q - 1)"
      by (rule frac_less [OF d a c b])
    also have "\<dots> = 2 powi (bitlen p) / 2 powi (bitlen q - 1)"
      using q1 bitlen_nonneg [of p] by (simp add: power_int_def)
    also have "\<dots> = 2 powi (?k + 1)"
      using power_int_diff [of "2::rat" "bitlen p" "bitlen q - 1"] by (simp add: algebra_simps)
    finally have "x < 2 powi (?k + 1)" using x by simp
    moreover have "expo x = ?k" using True by (simp add: expo_def pq Let_def)
    ultimately show ?thesis by simp
  qed
qed

lemma expo_unique:
  assumes "2 powi a \<le> x" "x < 2 powi (a + 1)"
  shows "expo x = a"
proof -
  have pos: "0 < x" using assms(1) zero_less_power_int [of "2::rat" a] by linarith
  note lo = expo_lower [OF pos] and hi = expo_upper [OF pos]
  have "\<not> expo x < a"
  proof
    assume "expo x < a"
    then have "expo x + 1 \<le> a" by simp
    then have "(2::rat) powi (expo x + 1) \<le> 2 powi a" by (intro power_int_increasing) simp_all
    then show False using hi assms(1) by linarith
  qed
  moreover have "\<not> a < expo x"
  proof
    assume "a < expo x"
    then have "a + 1 \<le> expo x" by simp
    then have "(2::rat) powi (a + 1) \<le> 2 powi (expo x)" by (intro power_int_increasing) simp_all
    then show False using lo assms(2) by linarith
  qed
  ultimately show ?thesis by simp
qed

lemma roundHalfEven_int: "roundHalfEven (of_int m) = m"
  by (simp add: roundHalfEven_def)

lemma roundHalfEven_ge: "of_int m \<le> q \<Longrightarrow> m \<le> roundHalfEven q"
proof -
  assume "of_int m \<le> q"
  then have "m \<le> \<lfloor>q\<rfloor>" by (simp add: le_floor_iff)
  then show ?thesis by (auto simp: roundHalfEven_def Let_def)
qed

lemma roundHalfEven_le: "q \<le> of_int m \<Longrightarrow> roundHalfEven q \<le> m"
proof -
  assume h: "q \<le> of_int m"
  have f: "\<lfloor>q\<rfloor> \<le> m" using h by (simp add: floor_le_iff)
  show ?thesis
  proof (cases "q = of_int \<lfloor>q\<rfloor>")
    case True
    then have "q - of_int \<lfloor>q\<rfloor> = 0" by simp
    then show ?thesis using f by (simp add: roundHalfEven_def Let_def)
  next
    case False
    have "of_int \<lfloor>q\<rfloor> \<le> q" by linarith
    then have "of_int \<lfloor>q\<rfloor> < (of_int m :: rat)" using False h by linarith
    then have "\<lfloor>q\<rfloor> < m" by (simp only: of_int_less_iff)
    then show ?thesis by (auto simp: roundHalfEven_def Let_def)
  qed
qed

lemma pow_split: "(2::rat) powi e = 2 ^ 52 * 2 powi (e - 52)"
  using power_int_diff [of "2::rat" e 52] by simp

lemma pow_next: "(2::rat) powi (e + 1) = 2 ^ 53 * 2 powi (e - 52)"
  using power_int_add [of "2::rat" e 1] pow_split [of e] by simp

lemma toDoublePos_unfold:
  "max (expo y) (- 1022) = e \<Longrightarrow>
   toDoublePos y = of_int (roundHalfEven (y / 2 powi (e - 52))) * 2 powi (e - 52)"
  by (simp add: toDoublePos_def Let_def)

lemma toDoublePos_normal:
  assumes "- 1022 \<le> e" "2 ^ 52 \<le> m" "m < 2 ^ 53"
  shows "toDoublePos (of_int m * 2 powi (e - 52)) = of_int m * 2 powi (e - 52)"
proof -
  define u :: rat where "u = 2 powi (e - 52)"
  have upos: "0 < u" by (simp add: u_def)
  have m1: "(2::rat) ^ 52 \<le> of_int m"
    using assms(2) by (metis of_int_le_iff of_int_numeral of_int_power)
  have m2: "(of_int m :: rat) < 2 ^ 53"
    using assms(3) by (metis of_int_less_iff of_int_numeral of_int_power)
  have lo: "2 powi e \<le> of_int m * u"
    unfolding pow_split [of e] u_def [symmetric] using m1 upos by (intro mult_right_mono) simp_all
  have hi: "of_int m * u < 2 powi (e + 1)"
    unfolding pow_next [of e] u_def [symmetric] using m2 upos by (intro mult_strict_right_mono)
  have ex: "expo (of_int m * u) = e" by (rule expo_unique [OF lo hi])
  have "of_int m * u / u = (of_int m :: rat)" using upos by simp
  then show ?thesis
    using assms(1) unfolding u_def [symmetric]
    by (simp add: toDoublePos_def Let_def ex max_def u_def [symmetric] roundHalfEven_int)
qed

lemma toDoublePos_subnormal:
  assumes "0 < m" "m < 2 ^ 52"
  shows "toDoublePos (of_int m * 2 powi (- 1074)) = of_int m * 2 powi (- 1074)"
proof -
  define u :: rat where "u = 2 powi (- 1074)"
  have upos: "0 < u" by (simp add: u_def)
  have m2: "(of_int m :: rat) < 2 ^ 52"
    using assms(2) by (metis of_int_less_iff of_int_numeral of_int_power)
  have ypos: "0 < of_int m * u" using assms(1) upos by simp
  have "of_int m * u < 2 ^ 52 * u" using m2 upos by (intro mult_strict_right_mono)
  also have "\<dots> = 2 powi (- 1022)" using pow_split [of "- 1022"] by (simp add: u_def)
  finally have small: "of_int m * u < 2 powi (- 1022)" .
  have "expo (of_int m * u) < - 1022"
  proof (rule ccontr)
    assume "\<not> expo (of_int m * u) < - 1022"
    then have "(2::rat) powi (- 1022) \<le> 2 powi (expo (of_int m * u))"
      by (intro power_int_increasing) simp_all
    then show False using expo_lower [OF ypos] small by linarith
  qed
  then have mx: "max (expo (of_int m * u)) (- 1022) = - 1022" by simp
  have "toDoublePos (of_int m * u)
      = of_int (roundHalfEven (of_int m * u / 2 powi (- 1022 - 52))) * 2 powi (- 1022 - 52)"
    by (rule toDoublePos_unfold [OF mx])
  also have "(- 1022 - 52 :: int) = - 1074" by simp
  finally have "toDoublePos (of_int m * u) = of_int (roundHalfEven (of_int m * u / u)) * u"
    by (simp only: u_def)
  also have "of_int m * u / u = (of_int m :: rat)" using upos by simp
  finally show ?thesis
    by (simp only: roundHalfEven_int u_def)
qed

text \<open>A number is its own nearest number: rounding twice is rounding once.\<close>

lemma toDoublePos_idem:
  assumes "0 < x"
  shows "toDoublePos x = 0 \<or> (0 < toDoublePos x \<and> toDoublePos (toDoublePos x) = toDoublePos x)"
proof -
  define e where "e = max (expo x) (- 1022)"
  define u :: rat where "u = 2 powi (e - 52)"
  define m where "m = roundHalfEven (x / u)"
  have upos: "0 < u" by (simp add: u_def)
  have y: "toDoublePos x = of_int m * u"
    by (simp add: toDoublePos_def Let_def e_def u_def m_def)
  have e1: "- 1022 \<le> e" by (simp add: e_def)
  have "x < 2 powi (expo x + 1)" by (rule expo_upper [OF assms])
  also have "\<dots> \<le> 2 powi (e + 1)" by (intro power_int_increasing) (simp_all add: e_def)
  also have "\<dots> = 2 ^ 53 * u" by (simp add: pow_next u_def)
  finally have "x / u < 2 ^ 53" using upos by (simp add: pos_divide_less_eq)
  then have "x / u \<le> of_int (2 ^ 53)" by simp
  then have mhi: "m \<le> 2 ^ 53" unfolding m_def by (rule roundHalfEven_le)
  have "of_int 0 \<le> x / u" using assms upos by simp
  then have mlo: "0 \<le> m" unfolding m_def by (rule roundHalfEven_ge)
  consider (zero) "m = 0" | (sub) "0 < m" "m < 2 ^ 52" | (norm) "2 ^ 52 \<le> m" "m < 2 ^ 53"
    | (top) "m = 2 ^ 53"
    using mlo mhi by linarith
  then show ?thesis
  proof cases
    case zero
    then show ?thesis by (simp add: y)
  next
    case norm
    have "0 < m" using norm(1) by (smt (verit) zero_less_power)
    then have "0 < of_int m * u" using upos by simp
    then show ?thesis
      using toDoublePos_normal [OF e1 norm] by (simp add: y u_def)
  next
    case top
    have "of_int m * u = of_int (2 ^ 52) * 2 powi ((e + 1) - 52)"
      using power_int_add [of "2::rat" "e - 52" 1] by (simp add: top u_def)
    moreover have "toDoublePos (of_int (2 ^ 52) * 2 powi ((e + 1) - 52))
        = of_int (2 ^ 52) * 2 powi ((e + 1) - 52)"
      using e1 by (intro toDoublePos_normal) simp_all
    moreover have "0 < of_int m * u" using upos by (simp add: top)
    ultimately show ?thesis by (simp add: y)
  next
    case sub
    have "e = - 1022"
    proof (rule ccontr)
      assume "e \<noteq> - 1022"
      then have ee: "e = expo x" by (simp add: e_def max_def split: if_splits)
      have "2 ^ 52 * u \<le> x" using expo_lower [OF assms] pow_split [of e] by (simp add: ee u_def)
      then have "of_int (2 ^ 52) \<le> x / u" using upos by (simp add: pos_le_divide_eq)
      then have "2 ^ 52 \<le> m" unfolding m_def by (rule roundHalfEven_ge)
      then show False using sub(2) by simp
    qed
    then have u': "u = 2 powi (- 1074)" by (simp add: u_def)
    have "0 < of_int m * u" using sub(1) upos by simp
    then show ?thesis
      using toDoublePos_subnormal [OF sub] by (simp add: y u')
  qed
qed

lemma toDouble_idem: "toDouble (toDouble x) = toDouble x"
proof -
  consider "x = 0" | "0 < x" | "x < 0" by linarith
  then show ?thesis
  proof cases
    case 1
    then show ?thesis by (simp add: toDouble_def)
  next
    case 2
    then show ?thesis using toDoublePos_idem [OF 2] by (auto simp: toDouble_def)
  next
    case 3
    then have "0 < - x" by simp
    from toDoublePos_idem [OF this] 3 show ?thesis by (auto simp: toDouble_def)
  qed
qed


text \<open>
  Two roundings that differ from the rounding of the decimal: the number nearest to 1.005
  lies below it, and so does the product of 100 and the number nearest to 1.36605.
\<close>

lemma toFixed2_below_half:
  "toFixed2 (toDouble (1005 / 1000)) = 1"
  "toFixed2 (toDouble (100 * toDouble (136605 / 100000))) = toDouble (1366 / 10)"
  by code_simp+
section \<open>Properties of the series builder\<close>

lemma convertedPoint_cadIdentity:
  "(cur = ''CAD'' \<Longrightarrow> r = 1) \<Longrightarrow> cadIdentity (convertedPoint d k a cur r sid u wb)"
  by (auto simp: cadIdentity_def convertedPoint_def)

lemma pagePoints_cadIdentity:
  "(cur = ''CAD'' \<Longrightarrow> r = 1) \<Longrightarrow> p \<in> set (pagePoints parsed d cur r wb) \<Longrightarrow> cadIdentity p"
  by (auto simp: pagePoints_def convertedPoint_cadIdentity split: option.splits)

lemma pagePoints_kindOk: "p \<in> set (pagePoints parsed d cur r wb) \<Longrightarrow> kindOk p"
  by (auto simp: pagePoints_def kindOk_def convertedPoint_def split: option.splits)

lemma rateToCad_one: "rateToCad e d cur = Some r \<Longrightarrow> cur = ''CAD'' \<Longrightarrow> r = 1"
  by (simp add: rateToCad_def)

lemma snapshotPoints_eq:
  "snapshotPoints e ts =
     (case fetchSnapshot e ts of
        None \<Rightarrow> []
      | Some htmlSnap \<Rightarrow>
          if current (parsePriceFromHtml htmlSnap) = None \<and> regular (parsePriceFromHtml htmlSnap) = None
          then []
          else (case rateToCad e (isoDateFromWaybackTimestamp ts) (fxFromOf (parsePriceFromHtml htmlSnap)) of
                  None \<Rightarrow> []
                | Some r \<Rightarrow> pagePoints (parsePriceFromHtml htmlSnap) (isoDateFromWaybackTimestamp ts)
                             (fxFromOf (parsePriceFromHtml htmlSnap)) r (Some ts)))"
  unfolding snapshotPoints_def Let_def by (rule refl)

lemma snapshotPoints_ok:
  assumes "p \<in> set (snapshotPoints e ts)"
  shows "cadIdentity p \<and> kindOk p"
proof (cases "fetchSnapshot e ts")
  case None
  then have "snapshotPoints e ts = []" by (simp add: snapshotPoints_eq)
  then show ?thesis using assms by simp
next
  case html: (Some htmlSnap)
  let ?p = "parsePriceFromHtml htmlSnap"
  let ?d = "isoDateFromWaybackTimestamp ts"
  show ?thesis
  proof (cases "rateToCad e ?d (fxFromOf ?p)")
    case None
    then have "snapshotPoints e ts = []" using html by (simp add: snapshotPoints_eq)
    then show ?thesis using assms by simp
  next
    case rate: (Some r)
    have "snapshotPoints e ts = [] \<or> snapshotPoints e ts = pagePoints ?p ?d (fxFromOf ?p) r (Some ts)"
      using html rate by (simp add: snapshotPoints_eq)
    then have "p \<in> set (pagePoints ?p ?d (fxFromOf ?p) r (Some ts))"
      using assms by auto
    then have "cadIdentity p \<and> kindOk p"
      by (intro conjI pagePoints_cadIdentity [OF rateToCad_one [OF rate]] pagePoints_kindOk)
    then show ?thesis .
  qed
qed


lemma historicalPoints_ok:
  assumes "p \<in> set (historicalPoints e iw)"
  shows "cadIdentity p \<and> kindOk p"
proof (cases "getWaybackAllSnapshots e")
  case None
  then have "historicalPoints e iw = []" by (simp add: historicalPoints_def)
  then show ?thesis using assms by simp
next
  case (Some snapshots)
  then have "historicalPoints e iw = (if iw then concat (map (snapshotPoints e) snapshots) else [])"
    by (simp add: historicalPoints_def)
  then have "p \<in> set (concat (map (snapshotPoints e) snapshots))"
    using assms by (cases iw) simp_all
  then obtain ts where "p \<in> set (snapshotPoints e ts)" by auto
  then show ?thesis by (rule snapshotPoints_ok)
qed

lemma supplementaryPoint_Some:
  assumes "supplementaryPoint e pt = Some p"
  shows "\<exists>r. rateToCad e (date pt) (suppCurrency pt) = Some r \<and>
     p = convertedPoint (date pt) (if kind pt = ''msrp'' then ''msrp'' else ''sale'')
           (amount (price pt)) (suppCurrency pt) r (sourceId pt) (url pt) (wayback pt)"
proof (cases "rateToCad e (date pt) (suppCurrency pt)")
  case None
  then show ?thesis using assms by (simp add: supplementaryPoint_def Let_def split: if_splits)
next
  case (Some r)
  then show ?thesis using assms by (simp add: supplementaryPoint_def Let_def split: if_splits)
qed

lemma supplementaryPoint_ok:
  assumes "supplementaryPoint e pt = Some p"
  shows "cadIdentity p \<and> kindOk p"
proof -
  obtain r where rate: "rateToCad e (date pt) (suppCurrency pt) = Some r"
    and p: "p = convertedPoint (date pt) (if kind pt = ''msrp'' then ''msrp'' else ''sale'')
           (amount (price pt)) (suppCurrency pt) r (sourceId pt) (url pt) (wayback pt)"
    using supplementaryPoint_Some [OF assms] by blast
  have "cadIdentity p"
    unfolding p by (rule convertedPoint_cadIdentity [OF rateToCad_one [OF rate]])
  moreover have "kindOk p"
    by (simp add: p kindOk_def convertedPoint_def)
  ultimately show ?thesis by blast
qed

lemma set_map_filter: "set (List.map_filter f xs) = {y. \<exists>x \<in> set xs. f x = Some y}"
  by (induction xs) (auto split: option.splits)

lemma supplementaryPoints_ok:
  assumes "p \<in> set (supplementaryPoints e supp)"
  shows "cadIdentity p \<and> kindOk p"
proof -
  obtain pt where "supplementaryPoint e pt = Some p"
    using assms by (auto simp: supplementaryPoints_def set_map_filter)
  then show ?thesis by (rule supplementaryPoint_ok)
qed

lemma map_filter_append: "List.map_filter f (xs @ ys) = List.map_filter f xs @ List.map_filter f ys"
  by (simp add: List.map_filter_def)

lemma entryPoint_Dated: "List.map_filter (entryPoint e) (map Dated pts) = List.map_filter (supplementaryPoint e) pts"
  by (induction pts) (simp_all add: List.map_filter_simps entryPoint_def split: option.splits)

lemma entryPoint_Undated: "List.map_filter (entryPoint e) (map Undated us) = []"
  by (induction us) (simp_all add: List.map_filter_simps entryPoint_def)

lemma spreadEntries_Some:
  assumes "spreadEntries f entries = Some spread"
  shows "List.map_filter (entryPoint e) spread = supplementaryPoints e (datedOf entries)"
proof -
  have "spread = map Dated (spreadSupplementaryDates (datedOf entries)) @ map Undated (undatedOf entries)"
    using assms by (simp add: spreadEntries_def Let_def split: if_splits)
  then show ?thesis
    by (simp add: map_filter_append entryPoint_Dated entryPoint_Undated supplementaryPoints_def)
qed

lemma spreadEntries_dated:
  assumes "undatedOf entries = []"
  shows "spreadEntries f entries = Some (map Dated (spreadSupplementaryDates (datedOf entries)))"
  using assms by (simp add: spreadEntries_def Let_def)

lemma datedOf_Dated: "datedOf (map Dated pts) = pts"
  by (induction pts) (simp_all add: datedOf_def List.map_filter_simps)

lemma undatedOf_Dated: "undatedOf (map Dated pts) = []"
  by (induction pts) (simp_all add: undatedOf_def List.map_filter_simps)

lemma buildSeries_Inr:
  assumes "buildSeries e iw = Inr series"
  shows "\<exists>html r entries. fetchLive e = Some html \<and>
     rateToCad e (todayISO e) (fxFromOf (parsePriceFromHtml html)) = Some r \<and>
     loadSupplementaryPoints e = Some entries \<and>
     series = mergeSeries
        (pagePoints (parsePriceFromHtml html) (todayISO e) (fxFromOf (parsePriceFromHtml html)) r None)
        (historicalPoints e iw) (supplementaryPoints e (datedOf entries))"
proof -
  obtain html where html: "fetchLive e = Some html"
    using assms by (cases "fetchLive e") (simp_all add: buildSeries_def)
  let ?p = "parsePriceFromHtml html"
  obtain r where r: "rateToCad e (todayISO e) (fxFromOf ?p) = Some r"
    using assms html by (cases "rateToCad e (todayISO e) (fxFromOf ?p)") (simp_all add: buildSeries_def Let_def)
  obtain entries where entries: "loadSupplementaryPoints e = Some entries"
    using assms html r by (cases "loadSupplementaryPoints e") (simp_all add: buildSeries_def Let_def)
  obtain spread where spread: "spreadEntries (sortComparesUndatedFirst e) entries = Some spread"
    using assms html r entries
    by (cases "spreadEntries (sortComparesUndatedFirst e) entries") (simp_all add: buildSeries_def Let_def)
  have "series = mergeSeries (pagePoints ?p (todayISO e) (fxFromOf ?p) r None)
        (historicalPoints e iw) (List.map_filter (entryPoint e) spread)"
    using assms html r entries spread by (simp add: buildSeries_def Let_def)
  then show ?thesis
    using html r entries spreadEntries_Some [OF spread] by simp
qed

lemma set_mergeSeries: "set (mergeSeries a b c) \<subseteq> set a \<union> set b \<union> set c"
  using dedupeLoop_subset [of "{}" "a @ b @ c"]
  by (auto simp: mergeSeries_def set_emitSeries dedupe_def)

lemma buildSeries_points_ok:
  assumes "buildSeries e iw = Inr series" and "p \<in> set series"
  shows "cadIdentity p \<and> kindOk p"
proof -
  obtain html r entries where
    rate: "rateToCad e (todayISO e) (fxFromOf (parsePriceFromHtml html)) = Some r"
    and series: "series = mergeSeries
        (pagePoints (parsePriceFromHtml html) (todayISO e) (fxFromOf (parsePriceFromHtml html)) r None)
        (historicalPoints e iw) (supplementaryPoints e (datedOf entries))"
    using buildSeries_Inr [OF assms(1)] by blast
  define supp where "supp = datedOf entries"
  note series = series [folded supp_def]
  note one = rateToCad_one [OF rate]
  consider "p \<in> set (pagePoints (parsePriceFromHtml html) (todayISO e) (fxFromOf (parsePriceFromHtml html)) r None)"
    | "p \<in> set (historicalPoints e iw)" | "p \<in> set (supplementaryPoints e supp)"
    using assms(2) set_mergeSeries unfolding series by blast
  then show ?thesis
  proof cases
    case 1
    then show ?thesis by (intro conjI pagePoints_cadIdentity [OF one] pagePoints_kindOk)
  next
    case 2
    then show ?thesis by (rule historicalPoints_ok)
  next
    case 3
    then show ?thesis by (rule supplementaryPoints_ok)
  qed
qed


text \<open>
  C4 (amended). A point of the emitted series whose currency is CAD carries no \<^verbatim>\<open>fx\<close>
  block, and its amount in CAD is \<^verbatim>\<open>Number(amount.toFixed(2))\<close> of its amount: equal to
  the amount when that is the number nearest to a decimal of at most two places (a
  count of hundredths below \<open>2^52\<close>).
\<close>

theorem buildSeries_cad_rounded:
  assumes "buildSeries e includeWayback = Inr series"
    and "p \<in> set series" and "currency (price p) = ''CAD''"
  shows "cad_amount (priceCad p) = toFixed2 (toDouble (amount (price p))) \<and>
         fx (priceCad p) = None \<and>
         (\<forall>n. 0 \<le> n \<and> n < 2 ^ 52 \<and> amount (price p) = toDouble (of_int n / 100) \<longrightarrow>
              cad_amount (priceCad p) = amount (price p))"
proof -
  have "cadIdentity p"
    using buildSeries_points_ok [OF assms(1,2)] by (rule conjunct1)
  then have r: "cad_amount (priceCad p) = toFixed2 (toDouble (amount (price p)))"
    and f: "fx (priceCad p) = None"
    using assms(3) by (simp_all add: cadIdentity_def)
  have "cad_amount (priceCad p) = amount (price p)"
    if "0 \<le> n \<and> n < 2 ^ 52 \<and> amount (price p) = toDouble (of_int n / 100)" for n :: int
  proof -
    have "toFixed2 (toDouble (toDouble (of_int n / 100))) = toDouble (of_int n / 100)"
      using that by (simp only: toDouble_idem toFixed2_two_decimals)
    then show ?thesis using r that by simp
  qed
  then show ?thesis using r f by blast
qed

theorem buildSeries_cad_rounded_witness:
  \<open>buildSeries (exampleEnv (Some ''"priceCurrency":"CAD","price":"225.00"'') None []) False
     = Inr [convertedPoint 19884 ''sale'' 225 ''CAD'' 1 SOURCE_id SOURCE_url None] \<and>
   cad_amount (priceCad (convertedPoint 19884 ''sale'' 225 ''CAD'' 1 SOURCE_id SOURCE_url None)) = 225 \<and>
   fx (priceCad (convertedPoint 19884 ''sale'' 225 ''CAD'' 1 SOURCE_id SOURCE_url None)) = None\<close>
proof -
  let ?p = "convertedPoint 19884 ''sale'' 225 ''CAD'' 1 SOURCE_id SOURCE_url None"
  have run: \<open>buildSeries (exampleEnv (Some ''"priceCurrency":"CAD","price":"225.00"'') None []) False
     = Inr [?p]\<close>
    by code_simp
  have n: "toDouble 225 = 225"
    by code_simp
  have mem: "?p \<in> set [?p]"
    by simp
  have cur: "currency (price ?p) = ''CAD''"
    by (simp add: convertedPoint_def)
  have amt: "amount (price ?p) = toDouble (of_int 22500 / 100)"
    by (simp add: convertedPoint_def n)
  have f: "fx (priceCad ?p) = None"
    and rounded: "\<forall>n. 0 \<le> n \<and> n < 2 ^ 52 \<and> amount (price ?p) = toDouble (of_int n / 100) \<longrightarrow>
              cad_amount (priceCad ?p) = amount (price ?p)"
    using buildSeries_cad_rounded [OF run mem cur] by blast+
  have "cad_amount (priceCad ?p) = amount (price ?p)"
    using rounded [rule_format, of 22500] amt by simp
  moreover have "amount (price ?p) = 225"
    by (simp add: convertedPoint_def)
  ultimately show ?thesis using run f by simp
qed

text \<open>
  The claim as stated fails on a page whose price has three decimals: the amount 225.999
  in CAD (the number nearest to it) is emitted with the CAD amount 226.
\<close>

theorem cad_amount_exact_counterexample:
  \<open>buildSeries (exampleEnv (Some ''"priceCurrency":"CAD","price":"225.999"'') None []) False
     = Inr [convertedPoint 19884 ''sale'' (toDouble (225999 / 1000)) ''CAD'' 1 SOURCE_id SOURCE_url None] \<and>
   currency (price (convertedPoint 19884 ''sale'' (toDouble (225999 / 1000)) ''CAD'' 1 SOURCE_id SOURCE_url None)) = ''CAD'' \<and>
   amount (price (convertedPoint 19884 ''sale'' (toDouble (225999 / 1000)) ''CAD'' 1 SOURCE_id SOURCE_url None))
     = toDouble (225999 / 1000) \<and>
   cad_amount (priceCad (convertedPoint 19884 ''sale'' (toDouble (225999 / 1000)) ''CAD'' 1 SOURCE_id SOURCE_url None)) = 226 \<and>
   toDouble (225999 / 1000) \<noteq> 226\<close>
proof -
  have \<open>buildSeries (exampleEnv (Some ''"priceCurrency":"CAD","price":"225.999"'') None []) False
     = Inr [convertedPoint 19884 ''sale'' (toDouble (225999 / 1000)) ''CAD'' 1 SOURCE_id SOURCE_url None]\<close>
    by code_simp
  moreover have "toFixed2 (toDouble (toDouble (225999 / 1000))) = 226"
    by code_simp
  moreover have "toDouble (225999 / 1000) \<noteq> 226"
    by code_simp
  ultimately show ?thesis by (simp add: convertedPoint_def)
qed

text \<open>
  A live page priced in USD on a day whose rate cannot be resolved: the page is fetched,
  yet the run aborts, since the rate of the live point is looked up outside any \<^verbatim>\<open>try\<close>.
\<close>

lemma buildSeries_live_fx_failure_aborts:
  \<open>fetchLive (exampleEnv (Some ''"priceCurrency":"USD","price":"225.00"'') None []) \<noteq> None \<and>
   buildSeries (exampleEnv (Some ''"priceCurrency":"USD","price":"225.00"'') None []) False
     = Inl LiveFxFailed\<close>
proof -
  have \<open>buildSeries (exampleEnv (Some ''"priceCurrency":"USD","price":"225.00"'') None []) False
     = Inl LiveFxFailed\<close>
    by code_simp
  then show ?thesis by (simp add: exampleEnv_def)
qed


text \<open>
  A run that meets a bar in a currency: the first entry of the file is in \<^verbatim>\<open>cad|X\<close>
  from the source \<^verbatim>\<open>y\<close>, the three others in CAD from the source \<^verbatim>\<open>X|y\<close>. The
  spreading moves the third to the day of the second, so that the two share date, kind,
  amount, currency and source; both have the key of the first, and neither is emitted.
\<close>

lemma buildSeries_bar_in_currency:
  \<open>buildSeries (exampleEnv (Some ''"priceCurrency":"CAD","price":"225.00"'') (Some (5 / 4))
       [exampleSupp 19880 ''sale'' 100 ''cad|X'' ''y'',
        exampleSupp 19880 ''sale'' 100 ''CAD'' ''X|y'',
        exampleSupp 19881 ''sale'' 100 ''CAD'' ''X|y'',
        exampleSupp 19881 ''sale'' 200 ''CAD'' ''X|y'']) False
     = Inr [convertedPoint 19880 ''sale'' 100 ''CAD|X'' (5 / 4) ''y'' ''https://example.org/listing'' None,
            convertedPoint 19881 ''sale'' 200 ''CAD'' 1 ''X|y'' ''https://example.org/listing'' None,
            convertedPoint 19884 ''sale'' 225 ''CAD'' 1 SOURCE_id SOURCE_url None]\<close>
  by code_simp

lemma mergeSeries_keys:
  "dedupeKey ` set (mergeSeries a b c) = dedupeKey ` set (a @ b @ c)"
  using dedupeLoop_keys [of "{}" "a @ b @ c"]
  by (simp add: mergeSeries_def set_emitSeries dedupe_def del: set_append)

lemma supplementaryPoint_coerces:
  assumes "kind s \<noteq> []" "amount (price s) \<noteq> 0" "sourceId s \<noteq> []" "url s \<noteq> []"
    and "rateToCad e (date s) (suppCurrency s) = Some r"
  shows "supplementaryPoint e s =
     Some (convertedPoint (date s) (if kind s = ''msrp'' then ''msrp'' else ''sale'')
             (amount (price s)) (suppCurrency s) r (sourceId s) (url s) (wayback s))"
  using assms by (simp add: supplementaryPoint_def Let_def)

text \<open>
  C10. Every point of the emitted series has the kind \<^verbatim>\<open>sale\<close> or \<^verbatim>\<open>msrp\<close>. A
  supplementary point (an entry with a date, after the date spreading) whose kind is present and is not
  \<^verbatim>\<open>msrp\<close>, whose other required fields are present and whose rate resolves, is not
  skipped: it is converted to a point of kind \<^verbatim>\<open>sale\<close> with its date, amount and
  source, and the series holds a point of kind \<^verbatim>\<open>sale\<close> with the key of that point.
\<close>

theorem buildSeries_kinds:
  assumes "buildSeries e includeWayback = Inr series"
  shows "(\<forall>p \<in> set series. kind p = ''sale'' \<or> kind p = ''msrp'') \<and>
    (\<forall>entries s.
       loadSupplementaryPoints e = Some entries \<and>
       s \<in> set (spreadSupplementaryDates (datedOf entries)) \<and>
       kind s \<noteq> [] \<and> kind s \<noteq> ''msrp'' \<and>
       amount (price s) \<noteq> 0 \<and> sourceId s \<noteq> [] \<and> url s \<noteq> [] \<and>
       rateToCad e (date s) (suppCurrency s) \<noteq> None \<longrightarrow>
       (\<exists>q. supplementaryPoint e s = Some q \<and> kind q = ''sale'' \<and>
            date q = date s \<and> amount (price q) = amount (price s) \<and>
            sourceId q = sourceId s \<and>
            (\<exists>p \<in> set series. dedupeKey p = dedupeKey q \<and> kind p = ''sale'')))"
proof (intro conjI allI impI ballI)
  fix p assume "p \<in> set series"
  then have "kindOk p" by (rule buildSeries_points_ok [OF assms, THEN conjunct2])
  then show "kind p = ''sale'' \<or> kind p = ''msrp''" by (simp add: kindOk_def)
next
  fix entries s
  assume h: "loadSupplementaryPoints e = Some entries \<and>
       s \<in> set (spreadSupplementaryDates (datedOf entries)) \<and>
       kind s \<noteq> [] \<and> kind s \<noteq> ''msrp'' \<and>
       amount (price s) \<noteq> 0 \<and> sourceId s \<noteq> [] \<and> url s \<noteq> [] \<and>
       rateToCad e (date s) (suppCurrency s) \<noteq> None"
  then obtain r where r: "rateToCad e (date s) (suppCurrency s) = Some r" by auto
  define q where "q = convertedPoint (date s) ''sale'' (amount (price s)) (suppCurrency s) r
      (sourceId s) (url s) (wayback s)"
  have sq: "supplementaryPoint e s = Some q"
    using supplementaryPoint_coerces [OF _ _ _ _ r] h by (simp add: q_def)
  obtain html r' supp where supp: "loadSupplementaryPoints e = Some supp"
    and series: "series = mergeSeries
        (pagePoints (parsePriceFromHtml html) (todayISO e) (fxFromOf (parsePriceFromHtml html)) r' None)
        (historicalPoints e includeWayback) (supplementaryPoints e (datedOf supp))"
    using buildSeries_Inr [OF assms] by auto
  have "supp = entries" using supp h by simp
  then have "q \<in> set (supplementaryPoints e (datedOf supp))"
    using sq h by (auto simp: supplementaryPoints_def set_map_filter)
  then have "dedupeKey q \<in> dedupeKey ` set series"
    unfolding series mergeSeries_keys by simp
  then obtain p where p: "p \<in> set series" "dedupeKey p = dedupeKey q" by auto
  have kq: "kind q = ''sale''" by (simp add: q_def convertedPoint_def)
  have "kind p = kind q" using p(2) by (simp add: dedupeKey_def)
  then have "\<exists>p \<in> set series. dedupeKey p = dedupeKey q \<and> kind p = ''sale''"
    using p kq by auto
  then show "\<exists>q. supplementaryPoint e s = Some q \<and> kind q = ''sale'' \<and>
            date q = date s \<and> amount (price q) = amount (price s) \<and>
            sourceId q = sourceId s \<and>
            (\<exists>p \<in> set series. dedupeKey p = dedupeKey q \<and> kind p = ''sale'')"
    using sq kq by (intro exI [of _ q]) (simp add: q_def convertedPoint_def)
qed

theorem buildSeries_kinds_witness:
  \<open>buildSeries (exampleEnv (Some ''"priceCurrency":"CAD","price":"225.00"'') None
       [exampleSupp 19880 ''auction'' 100 ''CAD'' ''grailed'']) False
     = Inr [convertedPoint 19880 ''sale'' 100 ''CAD'' 1 ''grailed'' ''https://example.org/listing'' None,
            convertedPoint 19884 ''sale'' 225 ''CAD'' 1 SOURCE_id SOURCE_url None] \<and>
   supplementaryPoint (exampleEnv (Some ''"priceCurrency":"CAD","price":"225.00"'') None
       [exampleSupp 19880 ''auction'' 100 ''CAD'' ''grailed''])
     (exampleSupp 19880 ''auction'' 100 ''CAD'' ''grailed'')
     = Some (convertedPoint 19880 ''sale'' 100 ''CAD'' 1 ''grailed'' ''https://example.org/listing'' None) \<and>
   kind (convertedPoint 19880 ''sale'' 100 ''CAD'' 1 ''grailed'' ''https://example.org/listing'' None) = ''sale''\<close>
proof -
  have run: \<open>buildSeries (exampleEnv (Some ''"priceCurrency":"CAD","price":"225.00"'') None
       [exampleSupp 19880 ''auction'' 100 ''CAD'' ''grailed'']) False
     = Inr [convertedPoint 19880 ''sale'' 100 ''CAD'' 1 ''grailed'' ''https://example.org/listing'' None,
            convertedPoint 19884 ''sale'' 225 ''CAD'' 1 SOURCE_id SOURCE_url None]\<close>
    by code_simp
  have sp: \<open>supplementaryPoint (exampleEnv (Some ''"priceCurrency":"CAD","price":"225.00"'') None
       [exampleSupp 19880 ''auction'' 100 ''CAD'' ''grailed''])
     (exampleSupp 19880 ''auction'' 100 ''CAD'' ''grailed'')
     = Some (convertedPoint 19880 ''sale'' 100 ''CAD'' 1 ''grailed'' ''https://example.org/listing'' None)\<close>
    by code_simp
  have k: "kind (convertedPoint 19880 ''sale'' 100 ''CAD'' 1 ''grailed'' ''https://example.org/listing'' None) = ''sale''"
    using buildSeries_kinds [OF run] by (simp add: convertedPoint_def)
  show ?thesis using run sp k by (intro conjI)
qed

lemma historicalPoints_eq:
  "historicalPoints e iw =
     (if iw then (case getWaybackAllSnapshots e of None \<Rightarrow> []
                  | Some snapshots \<Rightarrow> concat (map (snapshotPoints e) snapshots))
      else [])"
  by (simp add: historicalPoints_def)

text \<open>
  Two entries without a date: the spreading throws, outside any \<^verbatim>\<open>try\<close>, and the run
  aborts although the live page was fetched and the file was read.
\<close>

lemma buildSeries_undated_entries_abort:
  \<open>buildSeries ((exampleEnv (Some ''"priceCurrency":"CAD","price":"225.00"'') None [])
       \<lparr>loadSupplementaryPoints := Some [exampleUndated ''grailed'', exampleUndated ''grailed'']\<rparr>) False
     = Inl SupplementaryDateMissing\<close>
  by code_simp

text \<open>
  C7 (amended). A run aborts when the live page cannot be fetched, and when the
  supplementary file is there but cannot be read. When the live page is fetched, its
  rate resolved, the supplementary file read and each of its entries carries a date, the
  run returns a series whatever the archive and the other rate lookups do. The series is
  made of the points of the live page, of the historical points and of the spread
  supplementary entries, each converted or skipped on its own:

  \<^item> without the archive option, and with an index that cannot be read, there are no
    historical points; otherwise they are those of the snapshots, one snapshot after the
    other;
  \<^item> a snapshot that cannot be fetched or whose rate cannot be resolved contributes no
    point, and a snapshot that is fetched and whose rate is resolved contributes the
    points of its page;
  \<^item> a supplementary entry whose rate cannot be resolved is skipped, and one whose fields
    are present and whose rate is resolved is converted.
\<close>

theorem buildSeries_abort_policy:
  "(fetchLive e = None \<longrightarrow> buildSeries e includeWayback = Inl LiveFetchFailed) \<and>
   (\<forall>html r.
      fetchLive e = Some html \<and>
      rateToCad e (todayISO e) (fxFromOf (parsePriceFromHtml html)) = Some r \<longrightarrow>
      (loadSupplementaryPoints e = None \<longrightarrow>
         buildSeries e includeWayback = Inl SupplementaryUnreadable) \<and>
      (\<forall>supplementary. loadSupplementaryPoints e = Some (map Dated supplementary) \<longrightarrow>
         buildSeries e includeWayback =
           Inr (mergeSeries
                  (pagePoints (parsePriceFromHtml html) (todayISO e)
                     (fxFromOf (parsePriceFromHtml html)) r None)
                  (historicalPoints e includeWayback)
                  (List.map_filter (supplementaryPoint e)
                     (spreadSupplementaryDates supplementary))))) \<and>
   (\<not> includeWayback \<longrightarrow> historicalPoints e includeWayback = []) \<and>
   (getWaybackAllSnapshots e = None \<longrightarrow> historicalPoints e includeWayback = []) \<and>
   (\<forall>snapshots. getWaybackAllSnapshots e = Some snapshots \<and> includeWayback \<longrightarrow>
      historicalPoints e includeWayback = concat (map (snapshotPoints e) snapshots)) \<and>
   (\<forall>ts. fetchSnapshot e ts = None \<longrightarrow> snapshotPoints e ts = []) \<and>
   (\<forall>ts htmlSnap.
      fetchSnapshot e ts = Some htmlSnap \<and>
      rateToCad e (isoDateFromWaybackTimestamp ts) (fxFromOf (parsePriceFromHtml htmlSnap)) = None
      \<longrightarrow> snapshotPoints e ts = []) \<and>
   (\<forall>ts htmlSnap r.
      fetchSnapshot e ts = Some htmlSnap \<and>
      rateToCad e (isoDateFromWaybackTimestamp ts) (fxFromOf (parsePriceFromHtml htmlSnap)) = Some r
      \<longrightarrow> snapshotPoints e ts =
            pagePoints (parsePriceFromHtml htmlSnap) (isoDateFromWaybackTimestamp ts)
              (fxFromOf (parsePriceFromHtml htmlSnap)) r (Some ts)) \<and>
   (\<forall>pt. rateToCad e (date pt) (suppCurrency pt) = None \<longrightarrow> supplementaryPoint e pt = None) \<and>
   (\<forall>pt r.
      kind pt \<noteq> [] \<and> amount (price pt) \<noteq> 0 \<and> sourceId pt \<noteq> [] \<and> url pt \<noteq> [] \<and>
      rateToCad e (date pt) (suppCurrency pt) = Some r \<longrightarrow>
      supplementaryPoint e pt =
        Some (convertedPoint (date pt) (if kind pt = ''msrp'' then ''msrp'' else ''sale'')
                (amount (price pt)) (suppCurrency pt) r (sourceId pt) (url pt) (wayback pt)))"
proof (intro conjI allI impI)
  assume "fetchLive e = None"
  then show "buildSeries e includeWayback = Inl LiveFetchFailed"
    by (simp add: buildSeries_def)
next
  fix html r
  assume h: "fetchLive e = Some html \<and>
      rateToCad e (todayISO e) (fxFromOf (parsePriceFromHtml html)) = Some r"
  {
    assume "loadSupplementaryPoints e = None"
    with h show "buildSeries e includeWayback = Inl SupplementaryUnreadable"
      by (simp add: buildSeries_def Let_def)
  }
  {
    fix supplementary
    assume l: "loadSupplementaryPoints e = Some (map Dated supplementary)"
    have sp: "spreadEntries (sortComparesUndatedFirst e) (map Dated supplementary)
        = Some (map Dated (spreadSupplementaryDates supplementary))"
      using spreadEntries_dated [OF undatedOf_Dated, of _ supplementary]
      by (simp add: datedOf_Dated)
    show "buildSeries e includeWayback =
           Inr (mergeSeries
                  (pagePoints (parsePriceFromHtml html) (todayISO e)
                     (fxFromOf (parsePriceFromHtml html)) r None)
                  (historicalPoints e includeWayback)
                  (List.map_filter (supplementaryPoint e)
                     (spreadSupplementaryDates supplementary)))"
      using h l sp by (simp add: buildSeries_def Let_def entryPoint_Dated)
  }
next
  assume "\<not> includeWayback"
  then show "historicalPoints e includeWayback = []"
    by (simp add: historicalPoints_eq)
next
  assume "getWaybackAllSnapshots e = None"
  then show "historicalPoints e includeWayback = []"
    by (simp add: historicalPoints_eq)
next
  fix snapshots
  assume "getWaybackAllSnapshots e = Some snapshots \<and> includeWayback"
  then show "historicalPoints e includeWayback = concat (map (snapshotPoints e) snapshots)"
    by (simp add: historicalPoints_eq)
next
  fix ts
  assume "fetchSnapshot e ts = None"
  then show "snapshotPoints e ts = []"
    by (simp add: snapshotPoints_eq)
next
  fix ts htmlSnap
  assume "fetchSnapshot e ts = Some htmlSnap \<and>
      rateToCad e (isoDateFromWaybackTimestamp ts) (fxFromOf (parsePriceFromHtml htmlSnap)) = None"
  then show "snapshotPoints e ts = []"
    by (simp add: snapshotPoints_eq)
next
  fix ts htmlSnap r
  assume "fetchSnapshot e ts = Some htmlSnap \<and>
      rateToCad e (isoDateFromWaybackTimestamp ts) (fxFromOf (parsePriceFromHtml htmlSnap)) = Some r"
  then show "snapshotPoints e ts =
            pagePoints (parsePriceFromHtml htmlSnap) (isoDateFromWaybackTimestamp ts)
              (fxFromOf (parsePriceFromHtml htmlSnap)) r (Some ts)"
    by (simp add: snapshotPoints_eq pagePoints_def)
next
  fix pt
  assume "rateToCad e (date pt) (suppCurrency pt) = None"
  then show "supplementaryPoint e pt = None"
    by (simp add: supplementaryPoint_def Let_def)
next
  fix pt r
  assume "kind pt \<noteq> [] \<and> amount (price pt) \<noteq> 0 \<and> sourceId pt \<noteq> [] \<and> url pt \<noteq> [] \<and>
      rateToCad e (date pt) (suppCurrency pt) = Some r"
  then show "supplementaryPoint e pt =
        Some (convertedPoint (date pt) (if kind pt = ''msrp'' then ''msrp'' else ''sale'')
                (amount (price pt)) (suppCurrency pt) r (sourceId pt) (url pt) (wayback pt))"
    by (simp add: supplementaryPoint_coerces)
qed

text \<open>
  The claim as stated fails when the supplementary file cannot be read (any error but a
  missing file is thrown again): the live page is fetched and the run aborts.
\<close>

theorem abort_only_on_live_fetch_counterexample:
  \<open>fetchLive ((exampleEnv (Some ''"priceCurrency":"CAD","price":"225.00"'') None [])
       \<lparr>loadSupplementaryPoints := None\<rparr>) = Some ''"priceCurrency":"CAD","price":"225.00"'' \<and>
   buildSeries ((exampleEnv (Some ''"priceCurrency":"CAD","price":"225.00"'') None [])
       \<lparr>loadSupplementaryPoints := None\<rparr>) False = Inl SupplementaryUnreadable\<close>
proof -
  have \<open>buildSeries ((exampleEnv (Some ''"priceCurrency":"CAD","price":"225.00"'') None [])
       \<lparr>loadSupplementaryPoints := None\<rparr>) False = Inl SupplementaryUnreadable\<close>
    by code_simp
  then show ?thesis by (simp add: exampleEnv_def)
qed

theorem buildSeries_abort_policy_witness:
  \<open>buildSeries (exampleEnv None None []) True = Inl LiveFetchFailed \<and>
   historicalPoints (exampleEnv (Some ''"priceCurrency":"USD","price":"225.00"'') (Some (5 / 4))
      [exampleSupp 19880 ''sale'' 100 ''USD'' ''grailed'']) True = [] \<and>
   buildSeries (exampleEnv (Some ''"priceCurrency":"USD","price":"225.00"'') (Some (5 / 4))
      [exampleSupp 19880 ''sale'' 100 ''USD'' ''grailed'']) True
     = Inr [convertedPoint 19880 ''sale'' 100 ''USD'' (5 / 4) ''grailed'' ''https://example.org/listing'' None,
            convertedPoint 19884 ''sale'' 225 ''USD'' (5 / 4) SOURCE_id SOURCE_url None] \<and>
   supplementaryPoint (exampleEnv (Some ''"priceCurrency":"USD","price":"225.00"'') None [])
      (exampleSupp 19880 ''sale'' 100 ''USD'' ''grailed'') = None\<close>
proof -
  let ?page = \<open>''"priceCurrency":"USD","price":"225.00"''\<close>
  let ?s = "exampleSupp 19880 ''sale'' 100 ''USD'' ''grailed''"
  let ?e = "exampleEnv (Some ?page) (Some (5 / 4)) [?s]"
  let ?f = "exampleEnv (Some ?page) None []"
  have 1: "fetchLive (exampleEnv None None []) = None"
    by (simp add: exampleEnv_def)
  have 2: "getWaybackAllSnapshots ?e = None"
    by (simp add: exampleEnv_def getWaybackAllSnapshots_def)
  have 3: "buildSeries ?e True
     = Inr [convertedPoint 19880 ''sale'' 100 ''USD'' (5 / 4) ''grailed'' ''https://example.org/listing'' None,
            convertedPoint 19884 ''sale'' 225 ''USD'' (5 / 4) SOURCE_id SOURCE_url None]"
    by code_simp
  have 4: "rateToCad ?f (date ?s) (suppCurrency ?s) = None"
    by code_simp
  have a: "buildSeries (exampleEnv None None []) True = Inl LiveFetchFailed"
    using 1 buildSeries_abort_policy [of "exampleEnv None None []" True] by simp
  have b: "historicalPoints ?e True = []"
    using 2 buildSeries_abort_policy [of ?e True] by simp
  have c: "supplementaryPoint ?f ?s = None"
    using 4 buildSeries_abort_policy [of ?f True] by simp
  show ?thesis using a b 3 c by (intro conjI)
qed
section \<open>Properties of the marketplace fetcher\<close>

lemma addNew_inv:
  "seenKey ` set newPoints \<subseteq> existingKeys \<Longrightarrow> distinct (map seenKey newPoints) \<Longrightarrow>
   seenKey ` set newPoints \<inter> stored = {} \<Longrightarrow> stored \<subseteq> existingKeys \<Longrightarrow>
   addNew pts (existingKeys, newPoints) = (keys', new') \<Longrightarrow>
   seenKey ` set new' \<subseteq> keys' \<and> distinct (map seenKey new') \<and>
   seenKey ` set new' \<inter> stored = {} \<and> stored \<subseteq> keys' \<and>
   set new' \<subseteq> set newPoints \<union> set pts"
proof (induction pts arbitrary: existingKeys newPoints)
  case Nil
  then show ?case by auto
next
  case (Cons pt pts)
  show ?case
  proof (cases "seenKey pt \<in> existingKeys")
    case True
    then have run: "addNew pts (existingKeys, newPoints) = (keys', new')"
      using Cons.prems(5) by simp
    show ?thesis
      using Cons.IH [OF Cons.prems(1,2,3,4) run] by auto
  next
    case False
    then have run: "addNew pts (insert (seenKey pt) existingKeys, newPoints @ [pt]) = (keys', new')"
      using Cons.prems(5) by simp
    have 1: "seenKey ` set (newPoints @ [pt]) \<subseteq> insert (seenKey pt) existingKeys"
      using Cons.prems(1) by auto
    have 2: "distinct (map seenKey (newPoints @ [pt]))"
      using Cons.prems(1,2) False by auto
    have 3: "seenKey ` set (newPoints @ [pt]) \<inter> stored = {}"
      using Cons.prems(3,4) False by auto
    have 4: "stored \<subseteq> insert (seenKey pt) existingKeys"
      using Cons.prems(4) by auto
    show ?thesis
      using Cons.IH [OF 1 2 3 4 run] by auto
  qed
qed

lemma addFetched_inv:
  assumes "seenKey ` set newPoints \<subseteq> existingKeys" "distinct (map seenKey newPoints)"
    "seenKey ` set newPoints \<inter> stored = {}" "stored \<subseteq> existingKeys"
    "addFetched fetched (existingKeys, newPoints) = (keys', new')"
  shows "seenKey ` set new' \<subseteq> keys' \<and> distinct (map seenKey new') \<and>
   seenKey ` set new' \<inter> stored = {} \<and> stored \<subseteq> keys' \<and>
   set new' \<subseteq> set newPoints \<union> (case fetched of None \<Rightarrow> {} | Some pts \<Rightarrow> set pts)"
proof (cases fetched)
  case None
  then show ?thesis using assms by (auto simp: addFetched_def)
next
  case (Some pts)
  then have "addNew pts (existingKeys, newPoints) = (keys', new')"
    using assms(5) by (simp add: addFetched_def)
  from addNew_inv [OF assms(1,2,3,4) this] show ?thesis by (simp add: Some)
qed

lemma foldl_addFetched_inv:
  "seenKey ` set newPoints \<subseteq> existingKeys \<Longrightarrow> distinct (map seenKey newPoints) \<Longrightarrow>
   seenKey ` set newPoints \<inter> stored = {} \<Longrightarrow> stored \<subseteq> existingKeys \<Longrightarrow>
   foldl (\<lambda>st fetched. addFetched fetched st) (existingKeys, newPoints) fetches = (keys', new') \<Longrightarrow>
   distinct (map seenKey new') \<and> seenKey ` set new' \<inter> stored = {} \<and>
   set new' \<subseteq> set newPoints \<union> (\<Union>f \<in> set fetches. case f of None \<Rightarrow> {} | Some pts \<Rightarrow> set pts)"
proof (induction fetches arbitrary: existingKeys newPoints)
  case Nil
  then show ?case by auto
next
  case (Cons f fetches)
  obtain k1 n1 where s1: "addFetched f (existingKeys, newPoints) = (k1, n1)"
    by (cases "addFetched f (existingKeys, newPoints)")
  have i1: "seenKey ` set n1 \<subseteq> k1 \<and> distinct (map seenKey n1) \<and>
     seenKey ` set n1 \<inter> stored = {} \<and> stored \<subseteq> k1 \<and>
     set n1 \<subseteq> set newPoints \<union> (case f of None \<Rightarrow> {} | Some pts \<Rightarrow> set pts)"
    by (rule addFetched_inv [OF Cons.prems(1,2,3,4) s1])
  have run: "foldl (\<lambda>st fetched. addFetched fetched st) (k1, n1) fetches = (keys', new')"
    using Cons.prems(5) s1 by simp
  have "distinct (map seenKey new') \<and> seenKey ` set new' \<inter> stored = {} \<and>
     set new' \<subseteq> set n1 \<union> (\<Union>f \<in> set fetches. case f of None \<Rightarrow> {} | Some pts \<Rightarrow> set pts)"
    using i1 by (intro Cons.IH [OF _ _ _ _ run]) simp_all
  then show ?case using i1 by auto
qed

lemma collectNew_new:
  "distinct (map seenKey (collectNew supplementary fetches)) \<and>
   seenKey ` set (collectNew supplementary fetches) \<inter> seenKey ` set supplementary = {} \<and>
   set (collectNew supplementary fetches)
     \<subseteq> (\<Union>f \<in> set fetches. case f of None \<Rightarrow> {} | Some pts \<Rightarrow> set pts)"
proof -
  obtain k n where run: "foldl (\<lambda>st fetched. addFetched fetched st)
      (seenKey ` set supplementary, []) fetches = (k, n)"
    by (cases "foldl (\<lambda>st fetched. addFetched fetched st) (seenKey ` set supplementary, []) fetches")
  have "distinct (map seenKey n) \<and> seenKey ` set n \<inter> seenKey ` set supplementary = {} \<and>
     set n \<subseteq> set [] \<union> (\<Union>f \<in> set fetches. case f of None \<Rightarrow> {} | Some pts \<Rightarrow> set pts)"
    by (rule foldl_addFetched_inv [OF _ _ _ _ run]) simp_all
  then show ?thesis by (simp add: collectNew_def run)
qed

lemma ofSource_sorted: "mset (ofSource s (sortByDateAmount pts)) = mset (ofSource s pts)"
  by (simp add: ofSource_def sortByDateAmount_def)

lemma ofSource_append: "ofSource s (xs @ ys) = ofSource s xs @ ofSource s ys"
  by (simp add: ofSource_def)

lemma ofSource_dropped: "ofSource s (filter (\<lambda>p. sourceId p \<noteq> s) pts) = []"
  by (simp add: ofSource_def)

lemma ofSource_other:
  "s \<noteq> t \<Longrightarrow> ofSource s (filter (\<lambda>p. sourceId p \<noteq> t) pts) = ofSource s pts"
  unfolding ofSource_def filter_filter by (rule filter_cong) auto

lemma hasNew_iff: "list_ex (\<lambda>p. sourceId p = s) pts = (ofSource s pts \<noteq> [])"
  by (simp add: ofSource_def list_ex_iff filter_empty_conv)

lemma marketplaceMain_cases:
  "marketplaceMain supplementary grailed ebay waybackEbay =
     (if ofSource ''ebay'' (collectNew supplementary [grailed, ebay, waybackEbay]) \<noteq> []
      then sortByDateAmount (filter (\<lambda>p. sourceId p \<noteq> ''ebay'') supplementary
             @ collectNew supplementary [grailed, ebay, waybackEbay])
      else if collectNew supplementary [grailed, ebay, waybackEbay] \<noteq> []
      then sortByDateAmount (supplementary @ collectNew supplementary [grailed, ebay, waybackEbay])
      else supplementary)"
  by (simp add: marketplaceMain_def Let_def hasNew_iff)

lemma marketplaceMain_refreshed:
  "ofSource ''ebay'' (collectNew supplementary [grailed, ebay, waybackEbay]) \<noteq> [] \<Longrightarrow>
   marketplaceMain supplementary grailed ebay waybackEbay =
     sortByDateAmount (filter (\<lambda>p. sourceId p \<noteq> ''ebay'') supplementary
        @ collectNew supplementary [grailed, ebay, waybackEbay])"
  by (simp add: marketplaceMain_cases)

lemma marketplaceMain_appended:
  "ofSource ''ebay'' (collectNew supplementary [grailed, ebay, waybackEbay]) = [] \<Longrightarrow>
   collectNew supplementary [grailed, ebay, waybackEbay] \<noteq> [] \<Longrightarrow>
   marketplaceMain supplementary grailed ebay waybackEbay =
     sortByDateAmount (supplementary @ collectNew supplementary [grailed, ebay, waybackEbay])"
  by (simp add: marketplaceMain_cases)

lemma marketplaceMain_unchanged:
  "collectNew supplementary [grailed, ebay, waybackEbay] = [] \<Longrightarrow>
   marketplaceMain supplementary grailed ebay waybackEbay = supplementary"
  by (simp add: marketplaceMain_cases ofSource_def)

lemma marketplaceMain_ebay_new:
  assumes "ofSource ''ebay'' (collectNew supplementary [grailed, ebay, waybackEbay]) \<noteq> []"
  shows "mset (ofSource ''ebay'' (marketplaceMain supplementary grailed ebay waybackEbay))
       = mset (ofSource ''ebay'' (collectNew supplementary [grailed, ebay, waybackEbay]))"
  by (simp add: marketplaceMain_refreshed [OF assms] ofSource_sorted ofSource_append
      ofSource_dropped)

lemma marketplaceMain_ebay_none:
  assumes "ofSource ''ebay'' (collectNew supplementary [grailed, ebay, waybackEbay]) = []"
  shows "mset (ofSource ''ebay'' (marketplaceMain supplementary grailed ebay waybackEbay))
       = mset (ofSource ''ebay'' supplementary)"
proof (cases "collectNew supplementary [grailed, ebay, waybackEbay] = []")
  case True
  then show ?thesis by (simp add: marketplaceMain_unchanged)
next
  case False
  show ?thesis
    using assms
    by (simp add: marketplaceMain_appended [OF assms False] ofSource_sorted ofSource_append)
qed

lemma marketplaceMain_other:
  assumes "s \<noteq> ''ebay''"
  shows "mset (ofSource s (marketplaceMain supplementary grailed ebay waybackEbay))
       = mset (ofSource s supplementary)
         + mset (ofSource s (collectNew supplementary [grailed, ebay, waybackEbay]))"
proof -
  let ?new = "collectNew supplementary [grailed, ebay, waybackEbay]"
  consider (a) "ofSource ''ebay'' ?new \<noteq> []"
    | (b) "ofSource ''ebay'' ?new = []" "?new \<noteq> []" | (c) "?new = []"
    by fastforce
  then show ?thesis
  proof cases
    case a
    show ?thesis
      by (simp add: marketplaceMain_refreshed [OF a] ofSource_sorted ofSource_append
          ofSource_other [OF assms])
  next
    case b
    show ?thesis
      by (simp add: marketplaceMain_appended [OF b] ofSource_sorted ofSource_append)
  next
    case c
    show ?thesis
      by (simp add: marketplaceMain_unchanged [OF c] c ofSource_def)
  qed
qed

lemma marketplaceMainAppend_keeps:
  "mset (marketplaceMainAppend supplementary grailed ebay)
     = mset supplementary + mset (collectNew supplementary [grailed, ebay])"
  by (simp add: marketplaceMainAppend_def Let_def sortByDateAmount_def)

text \<open>
  C5 (amended). In the fetcher with the archive, the points called new are the fetched
  points whose (date, sourceId, amount) is not stored yet. When at least one new point
  has the source \<^verbatim>\<open>ebay\<close>, the eBay points of the file after the run are exactly the
  new eBay points; otherwise the stored eBay points stay. For every other source the
  stored points stay and the new ones are added, also when the run has new points for
  that source. The fetcher without the archive never discards a stored point.
\<close>

theorem marketplaceMain_refresh:
  "(ofSource ''ebay'' (collectNew supplementary [grailed, ebay, waybackEbay]) \<noteq> [] \<longrightarrow>
      mset (ofSource ''ebay'' (marketplaceMain supplementary grailed ebay waybackEbay))
        = mset (ofSource ''ebay'' (collectNew supplementary [grailed, ebay, waybackEbay]))) \<and>
   (ofSource ''ebay'' (collectNew supplementary [grailed, ebay, waybackEbay]) = [] \<longrightarrow>
      mset (ofSource ''ebay'' (marketplaceMain supplementary grailed ebay waybackEbay))
        = mset (ofSource ''ebay'' supplementary)) \<and>
   (\<forall>s. s \<noteq> ''ebay'' \<longrightarrow>
      mset (ofSource s (marketplaceMain supplementary grailed ebay waybackEbay))
        = mset (ofSource s supplementary)
          + mset (ofSource s (collectNew supplementary [grailed, ebay, waybackEbay]))) \<and>
   distinct (map seenKey (collectNew supplementary [grailed, ebay, waybackEbay])) \<and>
   seenKey ` set (collectNew supplementary [grailed, ebay, waybackEbay])
     \<inter> seenKey ` set supplementary = {} \<and>
   mset (marketplaceMainAppend supplementary grailed ebay)
     = mset supplementary + mset (collectNew supplementary [grailed, ebay])"
proof (intro conjI allI impI)
  assume "ofSource ''ebay'' (collectNew supplementary [grailed, ebay, waybackEbay]) \<noteq> []"
  then show "mset (ofSource ''ebay'' (marketplaceMain supplementary grailed ebay waybackEbay))
        = mset (ofSource ''ebay'' (collectNew supplementary [grailed, ebay, waybackEbay]))"
    by (rule marketplaceMain_ebay_new)
next
  assume "ofSource ''ebay'' (collectNew supplementary [grailed, ebay, waybackEbay]) = []"
  then show "mset (ofSource ''ebay'' (marketplaceMain supplementary grailed ebay waybackEbay))
        = mset (ofSource ''ebay'' supplementary)"
    by (rule marketplaceMain_ebay_none)
next
  fix s :: string
  assume "s \<noteq> ''ebay''"
  then show "mset (ofSource s (marketplaceMain supplementary grailed ebay waybackEbay))
        = mset (ofSource s supplementary)
          + mset (ofSource s (collectNew supplementary [grailed, ebay, waybackEbay]))"
    by (rule marketplaceMain_other)
next
  show "distinct (map seenKey (collectNew supplementary [grailed, ebay, waybackEbay]))"
    using collectNew_new [of supplementary "[grailed, ebay, waybackEbay]"] by (rule conjunct1)
  show "seenKey ` set (collectNew supplementary [grailed, ebay, waybackEbay])
     \<inter> seenKey ` set supplementary = {}"
    using collectNew_new [of supplementary "[grailed, ebay, waybackEbay]"]
    by (elim conjE)
  show "mset (marketplaceMainAppend supplementary grailed ebay)
     = mset supplementary + mset (collectNew supplementary [grailed, ebay])"
    by (rule marketplaceMainAppend_keeps)
qed

text \<open>
  Five stored eBay points and one stored Grailed point; the run fetches two eBay points
  and nothing else. The file then holds the Grailed point and the two eBay points.
\<close>

theorem marketplaceMain_refresh_witness:
  "marketplaceMain
     [exampleSupp 19870 ''sale'' 101 ''USD'' ''ebay'', exampleSupp 19871 ''sale'' 102 ''USD'' ''ebay'',
      exampleSupp 19872 ''sale'' 103 ''USD'' ''ebay'', exampleSupp 19873 ''sale'' 104 ''USD'' ''ebay'',
      exampleSupp 19874 ''sale'' 105 ''USD'' ''ebay'', exampleSupp 19875 ''sale'' 140 ''USD'' ''grailed'']
     None
     (Some [exampleSupp 19884 ''sale'' 110 ''USD'' ''ebay'', exampleSupp 19884 ''sale'' 95 ''USD'' ''ebay''])
     None
   = [exampleSupp 19875 ''sale'' 140 ''USD'' ''grailed'',
      exampleSupp 19884 ''sale'' 95 ''USD'' ''ebay'', exampleSupp 19884 ''sale'' 110 ''USD'' ''ebay''] \<and>
   mset (ofSource ''ebay'' (marketplaceMain
     [exampleSupp 19870 ''sale'' 101 ''USD'' ''ebay'', exampleSupp 19871 ''sale'' 102 ''USD'' ''ebay'',
      exampleSupp 19872 ''sale'' 103 ''USD'' ''ebay'', exampleSupp 19873 ''sale'' 104 ''USD'' ''ebay'',
      exampleSupp 19874 ''sale'' 105 ''USD'' ''ebay'', exampleSupp 19875 ''sale'' 140 ''USD'' ''grailed'']
     None
     (Some [exampleSupp 19884 ''sale'' 110 ''USD'' ''ebay'', exampleSupp 19884 ''sale'' 95 ''USD'' ''ebay''])
     None))
   = mset [exampleSupp 19884 ''sale'' 110 ''USD'' ''ebay'', exampleSupp 19884 ''sale'' 95 ''USD'' ''ebay'']"
proof -
  let ?store = "[exampleSupp 19870 ''sale'' 101 ''USD'' ''ebay'', exampleSupp 19871 ''sale'' 102 ''USD'' ''ebay'',
      exampleSupp 19872 ''sale'' 103 ''USD'' ''ebay'', exampleSupp 19873 ''sale'' 104 ''USD'' ''ebay'',
      exampleSupp 19874 ''sale'' 105 ''USD'' ''ebay'', exampleSupp 19875 ''sale'' 140 ''USD'' ''grailed'']"
  let ?ebay = "Some [exampleSupp 19884 ''sale'' 110 ''USD'' ''ebay'', exampleSupp 19884 ''sale'' 95 ''USD'' ''ebay'']"
  have new: "collectNew ?store [None, ?ebay, None]
      = [exampleSupp 19884 ''sale'' 110 ''USD'' ''ebay'', exampleSupp 19884 ''sale'' 95 ''USD'' ''ebay'']"
    by code_simp
  have run: "marketplaceMain ?store None ?ebay None
      = [exampleSupp 19875 ''sale'' 140 ''USD'' ''grailed'',
         exampleSupp 19884 ''sale'' 95 ''USD'' ''ebay'', exampleSupp 19884 ''sale'' 110 ''USD'' ''ebay'']"
    by code_simp
  have e: "ofSource ''ebay'' (collectNew ?store [None, ?ebay, None])
      = [exampleSupp 19884 ''sale'' 110 ''USD'' ''ebay'', exampleSupp 19884 ''sale'' 95 ''USD'' ''ebay'']"
    unfolding new by (simp add: ofSource_def exampleSupp_def)
  have "mset (ofSource ''ebay'' (marketplaceMain ?store None ?ebay None))
      = mset (ofSource ''ebay'' (collectNew ?store [None, ?ebay, None]))"
    using marketplaceMain_refresh [of ?store None ?ebay None] e by simp
  then show ?thesis using run e by simp
qed

text \<open>
  The claim as stated fails for a source other than eBay: a stored Grailed point stays in
  the file when the run brings a new Grailed point. In the fetcher without the archive a
  stored eBay point stays as well.
\<close>

theorem refresh_every_source_counterexample:
  "marketplaceMain [exampleSupp 19880 ''sale'' 100 ''USD'' ''grailed'']
     (Some [exampleSupp 19884 ''sale'' 120 ''USD'' ''grailed'']) None None
   = [exampleSupp 19880 ''sale'' 100 ''USD'' ''grailed'',
      exampleSupp 19884 ''sale'' 120 ''USD'' ''grailed''] \<and>
   marketplaceMainAppend [exampleSupp 19880 ''sale'' 100 ''USD'' ''ebay'']
     None (Some [exampleSupp 19884 ''sale'' 120 ''USD'' ''ebay''])
   = [exampleSupp 19880 ''sale'' 100 ''USD'' ''ebay'',
      exampleSupp 19884 ''sale'' 120 ''USD'' ''ebay'']"
  by code_simp

section \<open>Properties of the snapshot sampling\<close>

lemma stepLoop_set:
  "0 < step \<Longrightarrow> step dvd i \<Longrightarrow>
   stepLoop step n i indices = indices \<union> {j. i \<le> j \<and> j < n \<and> step dvd j}"
proof (induction step n i indices rule: stepLoop.induct)
  case (1 step n i indices)
  show ?case
  proof (cases "i < n")
    case True
    have dv: "step dvd (i + step)" using "1.prems"(2) by simp
    have ih: "stepLoop step n (i + step) (insert i indices)
        = insert i indices \<union> {j. i + step \<le> j \<and> j < n \<and> step dvd j}"
      using "1.IH" True "1.prems"(1) dv by simp
    have gap: "j = i \<or> i + step \<le> j" if ij: "i \<le> j" and dj: "step dvd j" for j
    proof (cases "j = i")
      case True
      then show ?thesis by simp
    next
      case False
      then have lt: "i < j" using ij by simp
      obtain a where a: "i = step * a" using "1.prems"(2) by (elim dvdE)
      obtain b where b: "j = step * b" using dj by (elim dvdE)
      have "a < b" using lt a b "1.prems"(1) by simp
      then have "a + 1 \<le> b" by simp
      then have "step * (a + 1) \<le> step * b" by (rule mult_le_mono2)
      then show ?thesis using a b by simp
    qed
    have "insert i indices \<union> {j. i + step \<le> j \<and> j < n \<and> step dvd j}
        = indices \<union> {j. i \<le> j \<and> j < n \<and> step dvd j}"
      using True "1.prems"(2) gap by auto
    with ih True "1.prems"(1) show ?thesis
      by (subst stepLoop.simps) simp
  next
    case False
    then have e: "{j. i \<le> j \<and> j < n \<and> step dvd j} = {}" by auto
    have "stepLoop step n i indices = indices"
      using False by (subst stepLoop.simps) simp
    then show ?thesis unfolding e by simp
  qed
qed

lemma sampleStep_pos: "0 < sampleStep n k"
  by (simp add: sampleStep_def)

lemma sampleIndices_mem:
  assumes "i < n"
  shows "i \<in> sampleIndices n k \<longleftrightarrow> sampleStep n k dvd i \<or> i = n - 1"
proof -
  have "stepLoop (sampleStep n k) n (sampleStep n k) {0}
      = {0} \<union> {j. sampleStep n k \<le> j \<and> j < n \<and> sampleStep n k dvd j}"
    by (rule stepLoop_set [OF sampleStep_pos]) simp
  moreover have "sampleStep n k \<le> i" if "sampleStep n k dvd i" "i \<noteq> 0"
    using that by (simp add: dvd_imp_le)
  ultimately show ?thesis
    unfolding sampleIndices_def using assms by auto
qed

lemma filter_enumerate:
  "map snd (filter (\<lambda>(i, s). P i) (enumerate 0 xs)) = map (\<lambda>i. xs ! i) (filter P [0 ..< length xs])"
proof (induction xs rule: rev_induct)
  case Nil
  show ?case by simp
next
  case (snoc x xs)
  have "map (\<lambda>i. (xs @ [x]) ! i) (filter P [0 ..< length xs]) = map (\<lambda>i. xs ! i) (filter P [0 ..< length xs])"
    by (rule map_cong) (auto simp: nth_append)
  then show ?case using snoc by (simp add: enumerate_append_eq)
qed

lemma sampleSnapshots_eq:
  "sampleSnapshots k xs =
     take k (map (\<lambda>i. xs ! i)
       (filter (\<lambda>i. sampleStep (length xs) k dvd i \<or> i = length xs - 1) [0 ..< length xs]))"
proof -
  have "filter (\<lambda>i. i \<in> sampleIndices (length xs) k) [0 ..< length xs]
      = filter (\<lambda>i. sampleStep (length xs) k dvd i \<or> i = length xs - 1) [0 ..< length xs]"
    by (rule filter_cong) (simp_all add: sampleIndices_mem)
  then show ?thesis
    by (simp add: sampleSnapshots_def filter_enumerate)
qed

lemma sampleSnapshots_hd:
  assumes "xs \<noteq> []" "0 < k"
  shows "hd (sampleSnapshots k xs) = hd xs"
proof -
  obtain n where n: "length xs = Suc n" using assms(1) by (cases xs) auto
  have "[0 ..< length xs] = 0 # [1 ..< length xs]"
    by (simp add: n upt_rec)
  then have "filter (\<lambda>i. sampleStep (length xs) k dvd i \<or> i = length xs - 1) [0 ..< length xs]
      = 0 # filter (\<lambda>i. sampleStep (length xs) k dvd i \<or> i = length xs - 1) [1 ..< length xs]"
    by simp
  then have "hd (sampleSnapshots k xs) = xs ! 0"
    using assms(2) by (cases k) (simp_all add: sampleSnapshots_eq)
  then show ?thesis using assms(1) by (simp add: hd_conv_nth)
qed

lemma byMonth_map_of:
  "map_of (byMonth rows m) k =
     (case map_of m k of Some t \<Rightarrow> Some t | None \<Rightarrow> find (\<lambda>t. take 6 t = k) rows)"
proof (induction rows arbitrary: m)
  case Nil
  show ?case by (simp split: option.splits)
next
  case (Cons t ts)
  show ?case
  proof (cases "map_of m (take 6 t)")
    case None
    then have "map_of (byMonth (t # ts) m) k = map_of (byMonth ts (m @ [(take 6 t, t)])) k"
      by simp
    also have "\<dots> = (case map_of (m @ [(take 6 t, t)]) k of Some u \<Rightarrow> Some u
                      | None \<Rightarrow> find (\<lambda>t. take 6 t = k) ts)"
      by (rule Cons.IH)
    also have "\<dots> = (case map_of m k of Some u \<Rightarrow> Some u
                      | None \<Rightarrow> find (\<lambda>t. take 6 t = k) (t # ts))"
      using None by (auto simp: map_add_def split: option.splits)
    finally show ?thesis .
  next
    case (Some u)
    then have "map_of (byMonth (t # ts) m) k = map_of (byMonth ts m) k"
      by simp
    also have "\<dots> = (case map_of m k of Some u \<Rightarrow> Some u | None \<Rightarrow> find (\<lambda>t. take 6 t = k) ts)"
      by (rule Cons.IH)
    also have "\<dots> = (case map_of m k of Some u \<Rightarrow> Some u
                      | None \<Rightarrow> find (\<lambda>t. take 6 t = k) (t # ts))"
      using Some by (auto split: option.splits)
    finally show ?thesis .
  qed
qed

lemma byMonth_keys:
  "distinct (map fst m) \<Longrightarrow>
   distinct (map fst (byMonth rows m)) \<and>
   set (map fst (byMonth rows m)) = set (map fst m) \<union> take 6 ` set rows"
proof (induction rows arbitrary: m)
  case Nil
  then show ?case by simp
next
  case (Cons t ts)
  show ?case
  proof (cases "map_of m (take 6 t)")
    case None
    then have fresh: "take 6 t \<notin> fst ` set m" by (simp add: map_of_eq_None_iff)
    then have d: "distinct (map fst (m @ [(take 6 t, t)]))" using Cons.prems by simp
    show ?thesis using Cons.IH [OF d] None by auto
  next
    case (Some u)
    then have "take 6 t \<in> fst ` set m"
      by (metis map_of_eq_None_iff option.distinct(1))
    then show ?thesis using Cons.IH [OF Cons.prems] Some by auto
  qed
qed

lemma getWaybackMonthlySnapshots_eq:
  "getWaybackMonthlySnapshots rows maxMonths =
     List.map_filter (\<lambda>m. find (\<lambda>t. take 6 t = m) rows)
       (drop (length (sorted_list_of_set (take 6 ` set rows)) - maxMonths)
          (sorted_list_of_set (take 6 ` set rows)))"
proof -
  have d: "distinct (map fst (byMonth rows []))"
    and s: "set (map fst (byMonth rows [])) = take 6 ` set rows"
    using byMonth_keys [of "[]" rows] by simp_all
  have "sorted_list_of_set (take 6 ` set rows) = sort (remdups (map fst (byMonth rows [])))"
    unfolding s [symmetric] by (rule sorted_list_of_set_sort_remdups)
  then have months: "sort (map fst (byMonth rows [])) = sorted_list_of_set (take 6 ` set rows)"
    using d by (simp add: distinct_remdups_id)
  have "map_of (byMonth rows []) = (\<lambda>m. find (\<lambda>t. take 6 t = m) rows)"
    by (rule ext) (simp add: byMonth_map_of)
  moreover have "length (byMonth rows []) = card (take 6 ` set rows)"
    using distinct_card [OF d] s by simp
  ultimately show ?thesis
    by (simp add: getWaybackMonthlySnapshots_def Let_def months)
qed

lemma indexedSnapshots_eq:
  "indexedSnapshots k xs =
     map (\<lambda>i. xs ! i) (filter (\<lambda>i. i \<in> sampleIndices (length xs) k) [0 ..< length xs])"
  by (simp add: indexedSnapshots_def filter_enumerate)

lemma sampleSnapshots_take: "sampleSnapshots k xs = take k (indexedSnapshots k xs)"
  by (simp add: sampleSnapshots_def indexedSnapshots_def)

lemma indexedSnapshots_ends:
  assumes "xs \<noteq> []"
  shows "hd xs \<in> set (indexedSnapshots k xs) \<and> last xs \<in> set (indexedSnapshots k xs)"
proof -
  have n: "0 < length xs" using assms by simp
  have "0 \<in> sampleIndices (length xs) k"
    using sampleIndices_mem [OF n, of k] by simp
  then have "xs ! 0 \<in> set (indexedSnapshots k xs)"
    using n by (simp add: indexedSnapshots_eq)
  moreover have "length xs - 1 \<in> sampleIndices (length xs) k"
    by (simp add: sampleIndices_def)
  then have "xs ! (length xs - 1) \<in> set (indexedSnapshots k xs)"
    using n by (simp add: indexedSnapshots_eq)
  ultimately show ?thesis
    using assms by (simp add: hd_conv_nth last_conv_nth)
qed

text \<open>
  C6 (amended). \<^verbatim>\<open>fetchEbayFromWayback\<close> chooses, of a list of \<open>N\<close> snapshots, the
  indices that are multiples of \<open>step = max 1 ((N - 1) div max 1 (K - 2))\<close> and the last
  index: an even spacing that holds the earliest and the latest snapshot. The sample it
  returns is made of chosen snapshots in their order, at most \<open>K\<close> of them: all of them
  when they are at most \<open>K\<close>, and the earliest is among them when \<open>K\<close> is positive.
  \<^verbatim>\<open>getWaybackMonthlySnapshots\<close> keeps the first timestamp of each month and returns
  those of the most recent \<open>maxMonths\<close> months, in ascending order: the end of the list
  of months, not a spread over it.
\<close>

theorem snapshot_sampling:
  "(\<forall>i < length snapshots.
      i \<in> sampleIndices (length snapshots) maxSnapshots \<longleftrightarrow>
      sampleStep (length snapshots) maxSnapshots dvd i \<or> i = length snapshots - 1) \<and>
   indexedSnapshots maxSnapshots snapshots =
     map (\<lambda>i. snapshots ! i)
       (filter (\<lambda>i. i \<in> sampleIndices (length snapshots) maxSnapshots) [0 ..< length snapshots]) \<and>
   (snapshots \<noteq> [] \<longrightarrow>
      hd snapshots \<in> set (indexedSnapshots maxSnapshots snapshots) \<and>
      last snapshots \<in> set (indexedSnapshots maxSnapshots snapshots)) \<and>
   subseq (sampleSnapshots maxSnapshots snapshots) (indexedSnapshots maxSnapshots snapshots) \<and>
   length (sampleSnapshots maxSnapshots snapshots) =
     min maxSnapshots (length (indexedSnapshots maxSnapshots snapshots)) \<and>
   (length (indexedSnapshots maxSnapshots snapshots) \<le> maxSnapshots \<longrightarrow>
      sampleSnapshots maxSnapshots snapshots = indexedSnapshots maxSnapshots snapshots) \<and>
   (snapshots \<noteq> [] \<and> 0 < maxSnapshots \<longrightarrow>
      hd (sampleSnapshots maxSnapshots snapshots) = hd snapshots) \<and>
   getWaybackMonthlySnapshots rows maxMonths =
     List.map_filter (\<lambda>m. find (\<lambda>t. take 6 t = m) rows)
       (drop (length (sorted_list_of_set (take 6 ` set rows)) - maxMonths)
          (sorted_list_of_set (take 6 ` set rows)))"
proof (intro conjI impI allI)
  fix i
  assume "i < length snapshots"
  then show "i \<in> sampleIndices (length snapshots) maxSnapshots \<longleftrightarrow>
      sampleStep (length snapshots) maxSnapshots dvd i \<or> i = length snapshots - 1"
    by (rule sampleIndices_mem)
next
  show "indexedSnapshots maxSnapshots snapshots =
     map (\<lambda>i. snapshots ! i)
       (filter (\<lambda>i. i \<in> sampleIndices (length snapshots) maxSnapshots) [0 ..< length snapshots])"
    by (rule indexedSnapshots_eq)
next
  assume "snapshots \<noteq> []"
  then show "hd snapshots \<in> set (indexedSnapshots maxSnapshots snapshots)"
    by (rule indexedSnapshots_ends [THEN conjunct1])
next
  assume "snapshots \<noteq> []"
  then show "last snapshots \<in> set (indexedSnapshots maxSnapshots snapshots)"
    by (rule indexedSnapshots_ends [THEN conjunct2])
next
  have "prefix (sampleSnapshots maxSnapshots snapshots) (indexedSnapshots maxSnapshots snapshots)"
    unfolding sampleSnapshots_take by (rule take_is_prefix)
  then show "subseq (sampleSnapshots maxSnapshots snapshots) (indexedSnapshots maxSnapshots snapshots)"
    by (rule prefix_imp_subseq)
next
  show "length (sampleSnapshots maxSnapshots snapshots) =
     min maxSnapshots (length (indexedSnapshots maxSnapshots snapshots))"
    by (simp add: sampleSnapshots_take min.commute)
next
  assume "length (indexedSnapshots maxSnapshots snapshots) \<le> maxSnapshots"
  then show "sampleSnapshots maxSnapshots snapshots = indexedSnapshots maxSnapshots snapshots"
    by (simp add: sampleSnapshots_take)
next
  assume "snapshots \<noteq> [] \<and> 0 < maxSnapshots"
  then show "hd (sampleSnapshots maxSnapshots snapshots) = hd snapshots"
    by (simp add: sampleSnapshots_hd)
next
  show "getWaybackMonthlySnapshots rows maxMonths =
     List.map_filter (\<lambda>m. find (\<lambda>t. take 6 t = m) rows)
       (drop (length (sorted_list_of_set (take 6 ` set rows)) - maxMonths)
          (sorted_list_of_set (take 6 ` set rows)))"
    by (rule getWaybackMonthlySnapshots_eq)
qed

theorem snapshot_sampling_witness:
  "hd (sampleSnapshots 10 monthlyTimestamps30) = ''20220115120000'' \<and>
   ''20220115120000'' \<in> set (indexedSnapshots 10 monthlyTimestamps30) \<and>
   ''20240615120000'' \<in> set (indexedSnapshots 10 monthlyTimestamps30) \<and>
   length (sampleSnapshots 10 monthlyTimestamps30) \<le> 10"
proof -
  have ne: "monthlyTimestamps30 \<noteq> []" and pos: "0 < (10::nat)"
    and first: "hd monthlyTimestamps30 = ''20220115120000''"
    and latest: "last monthlyTimestamps30 = ''20240615120000''"
    by (simp_all add: monthlyTimestamps30_def)
  note s = snapshot_sampling [of monthlyTimestamps30 10 "[]" 0]
  have ends: "hd monthlyTimestamps30 \<in> set (indexedSnapshots 10 monthlyTimestamps30) \<and>
      last monthlyTimestamps30 \<in> set (indexedSnapshots 10 monthlyTimestamps30)"
    using s [THEN conjunct2, THEN conjunct2, THEN conjunct1] ne by (rule mp)
  have len: "length (sampleSnapshots 10 monthlyTimestamps30) =
      min 10 (length (indexedSnapshots 10 monthlyTimestamps30))"
    by (rule s [THEN conjunct2, THEN conjunct2, THEN conjunct2, THEN conjunct2, THEN conjunct1])
  have "hd (sampleSnapshots 10 monthlyTimestamps30) = hd monthlyTimestamps30"
    using s [THEN conjunct2, THEN conjunct2, THEN conjunct2, THEN conjunct2, THEN conjunct2,
        THEN conjunct2, THEN conjunct1] ne pos
    by simp
  then show ?thesis using ends len first latest by simp
qed

text \<open>
  The claim as stated fails on its own example: of thirty monthly timestamps and a cap of
  ten, \<^verbatim>\<open>getWaybackMonthlySnapshots\<close> returns the last ten, without the earliest.
\<close>

theorem monthly_sample_is_suffix_counterexample:
  "getWaybackMonthlySnapshots monthlyTimestamps30 10 =
     [''20230915120000'', ''20231015120000'', ''20231115120000'', ''20231215120000'',
      ''20240115120000'', ''20240215120000'', ''20240315120000'', ''20240415120000'',
      ''20240515120000'', ''20240615120000''] \<and>
   hd monthlyTimestamps30 \<notin> set (getWaybackMonthlySnapshots monthlyTimestamps30 10)"
proof -
  have "getWaybackMonthlySnapshots monthlyTimestamps30 10 =
     [''20230915120000'', ''20231015120000'', ''20231115120000'', ''20231215120000'',
      ''20240115120000'', ''20240215120000'', ''20240315120000'', ''20240415120000'',
      ''20240515120000'', ''20240615120000'']"
    by code_simp
  then show ?thesis by (simp add: monthlyTimestamps30_def)
qed

text \<open>
  On the same example \<^verbatim>\<open>fetchEbayFromWayback\<close> chooses the eleven indices 0, 3, ...,
  27 and 29, and \<^verbatim>\<open>slice(0, maxSnapshots)\<close> drops the last of them: the sample is
  without the latest snapshot, which the comment of the code (\<^verbatim>\<open>oldest, newest, and evenly in between\<close>)
  promises.
\<close>

lemma sampleSnapshots_cut_drops_latest:
  "sampleSnapshots 10 monthlyTimestamps30 =
     [''20220115120000'', ''20220415120000'', ''20220715120000'', ''20221015120000'',
      ''20230115120000'', ''20230415120000'', ''20230715120000'', ''20231015120000'',
      ''20240115120000'', ''20240415120000''] \<and>
   last monthlyTimestamps30 \<notin> set (sampleSnapshots 10 monthlyTimestamps30)"
proof -
  have "sampleSnapshots 10 monthlyTimestamps30 =
     [''20220115120000'', ''20220415120000'', ''20220715120000'', ''20221015120000'',
      ''20230115120000'', ''20230415120000'', ''20230715120000'', ''20231015120000'',
      ''20240115120000'', ''20240415120000'']"
    by code_simp
  then show ?thesis by (simp add: monthlyTimestamps30_def)
qed


end
